theory Spec2Isabelle
  imports Main
begin

section \<open>JavaScript strings\<close>

text \<open>
  Message texts, signatures and addresses are JavaScript strings. They are modelled as
  lists of 8-bit characters (code units 0..255); the bracket patterns of the
  extractor only mention ASCII characters.
\<close>

definition code :: "char \<Rightarrow> nat" where
  "code c = of_char c"

text \<open>\<^verbatim>\<open>String.prototype.trim\<close>: white space and line terminators are removed
  at both ends (tab, LF, VT, FF, CR, space, no-break space in this character range).\<close>

definition is_space :: "char \<Rightarrow> bool" where
  "is_space c = (code c \<in> {9, 10, 11, 12, 13, 32, 160})"

definition trim :: "string \<Rightarrow> string" where
  "trim s = rev (dropWhile is_space (rev (dropWhile is_space s)))"

text \<open>\<^verbatim>\<open>String.prototype.toLowerCase\<close> on one code unit: the ASCII capitals and
  the Latin-1 capitals (U+00C0..U+00DE without the multiplication sign) move by 32.\<close>

definition lower_char :: "char \<Rightarrow> char" where
  "lower_char c =
     (let n = code c in
      if 65 \<le> n \<and> n \<le> 90 then char_of (n + 32)
      else if 192 \<le> n \<and> n \<le> 222 \<and> n \<noteq> 215 then char_of (n + 32)
      else c)"

definition toLowerCase :: "string \<Rightarrow> string" where
  "toLowerCase s = map lower_char s"

text \<open>\<^verbatim>\<open>s.startsWith(p)\<close>.\<close>

definition startsWith :: "string \<Rightarrow> string \<Rightarrow> bool" where
  "startsWith s p = (take (length p) s = p)"

text \<open>\<^verbatim>\<open>s.replace(sub, '')\<close> with a string pattern: the first occurrence of
  \<open>sub\<close> is removed, later ones stay; without an occurrence the text is unchanged.\<close>

fun remove_first :: "string \<Rightarrow> string \<Rightarrow> string" where
  "remove_first sub [] = []"
| "remove_first sub (c # cs) =
     (if startsWith (c # cs) sub then drop (length sub) (c # cs)
      else c # remove_first sub cs)"

section \<open>Regular expressions of the signature patterns\<close>

text \<open>
  The patterns are built from literal characters, character classes with a counted
  greedy repetition, and capture groups; all carry the \<open>i\<close> flag. A class is a list
  of character ranges, as between the square brackets of the source.
\<close>

type_synonym char_class = "(char \<times> char) list"

datatype atom =
    Lit char
  | Rep char_class nat "nat option"
  | GroupOpen
  | GroupClose

type_synonym regex = "atom list"

text \<open>Canonicalize of the \<open>i\<close> flag: a character is compared by its upper case.
  A character outside ASCII never canonicalizes to an ASCII character, and the patterns
  hold ASCII characters only, so only the ASCII letters are folded here.\<close>

definition canonicalize :: "char \<Rightarrow> char" where
  "canonicalize c = (let n = code c in if 97 \<le> n \<and> n \<le> 122 then char_of (n - 32) else c)"

definition class_members :: "char_class \<Rightarrow> char list" where
  "class_members rs =
     concat (map (\<lambda>(lo, hi). map char_of [code lo ..< Suc (code hi)]) rs)"

text \<open>A character is in a class under the \<open>i\<close> flag when some member of the class has
  the same canonical form.\<close>

definition class_matches :: "char_class \<Rightarrow> char \<Rightarrow> bool" where
  "class_matches rs c = (canonicalize c \<in> set (map canonicalize (class_members rs)))"

fun first_some :: "('a \<Rightarrow> 'b option) \<Rightarrow> 'a list \<Rightarrow> 'b option" where
  "first_some f [] = None"
| "first_some f (x # xs) = (case f x of Some y \<Rightarrow> Some y | None \<Rightarrow> first_some f xs)"

text \<open>The repetition counts a greedy quantifier tries, longest first, on input
  \<open>inp\<close>: from the longest run of class characters (cut at the upper bound) down to
  the lower bound.\<close>

definition rep_counts :: "char_class \<Rightarrow> nat \<Rightarrow> nat option \<Rightarrow> string \<Rightarrow> nat list" where
  "rep_counts cls lo hi inp =
     (let n = length (takeWhile (class_matches cls) inp);
          top = (case hi of None \<Rightarrow> n | Some h \<Rightarrow> min n h)
      in rev [lo ..< Suc top])"

text \<open>
  The backtracking matcher, anchored at the start of \<open>inp\<close>. \<open>acc\<close> is the text
  matched so far, \<open>opens\<close> the offsets of the groups still open, \<open>caps\<close> the texts
  of the groups already closed. The result is \<open>match[0]\<close> and the captures.
\<close>

fun run :: "regex \<Rightarrow> string \<Rightarrow> string \<Rightarrow> nat list \<Rightarrow> string list
    \<Rightarrow> (string \<times> string list) option" where
  "run [] inp acc opens caps = Some (acc, caps)"
| "run (Lit a # r) inp acc opens caps =
     (case inp of
        [] \<Rightarrow> None
      | c # cs \<Rightarrow>
          if canonicalize c = canonicalize a then run r cs (acc @ [c]) opens caps else None)"
| "run (Rep cls lo hi # r) inp acc opens caps =
     first_some (\<lambda>k. run r (drop k inp) (acc @ take k inp) opens caps)
       (rep_counts cls lo hi inp)"
| "run (GroupOpen # r) inp acc opens caps = run r inp acc (length acc # opens) caps"
| "run (GroupClose # r) inp acc opens caps =
     (case opens of
        [] \<Rightarrow> None
      | s # os \<Rightarrow> run r inp acc os (caps @ [drop s acc]))"

text \<open>The match array of \<^verbatim>\<open>text.match(pattern)\<close> for a pattern without the
  \<open>g\<close> flag: \<open>match[0]\<close> followed by the captures, at the leftmost position where
  the pattern matches; \<open>None\<close> is \<^verbatim>\<open>null\<close>.\<close>

definition match_here :: "regex \<Rightarrow> string \<Rightarrow> string list option" where
  "match_here p s = (case run p s [] [] [] of None \<Rightarrow> None | Some (w, caps) \<Rightarrow> Some (w # caps))"

fun js_match :: "string \<Rightarrow> regex \<Rightarrow> string list option" where
  "js_match [] p = match_here p []"
| "js_match (c # cs) p =
     (case match_here p (c # cs) of Some m \<Rightarrow> Some m | None \<Rightarrow> js_match cs p)"

text \<open>\<open>match[i]\<close>; an index past the groups reads \<^verbatim>\<open>undefined\<close>, which no
  pattern below can reach.\<close>

definition grp :: "string list \<Rightarrow> nat \<Rightarrow> string" where
  "grp m i = (if i < length m then m ! i else ''undefined'')"

definition lits :: "string \<Rightarrow> regex" where
  "lits s = map Lit s"

definition HEX :: char_class where
  "HEX = [(CHR ''0'', CHR ''9''), (CHR ''a'', CHR ''f''), (CHR ''A'', CHR ''F'')]"

definition BASE64 :: char_class where
  "BASE64 = [(CHR ''A'', CHR ''Z''), (CHR ''a'', CHR ''z''), (CHR ''0'', CHR ''9''),
             (CHR ''+'', CHR ''+''), (CHR ''/'', CHR ''/''), (CHR ''='', CHR ''='')]"

definition DID_METHOD :: char_class where
  "DID_METHOD = [(CHR ''a'', CHR ''z''), (CHR ''0'', CHR ''9'')]"

definition DID_ID :: char_class where
  "DID_ID = [(CHR ''a'', CHR ''z''), (CHR ''A'', CHR ''Z''), (CHR ''0'', CHR ''9''),
             (CHR ''.'', CHR ''.''), (CHR ''_'', CHR ''_''), (CHR ''-'', CHR ''-'')]"

text \<open>\<^verbatim>\<open>/\[SIG:([0-9a-fA-F]{64,})\]/i\<close>\<close>

definition sig_pattern :: regex where
  "sig_pattern = lits ''[SIG:'' @ [GroupOpen, Rep HEX 64 None, GroupClose, Lit CHR '']'']"

text \<open>\<^verbatim>\<open>/\[SIGNATURE:([A-Za-z0-9+/=]{64,})\]/i\<close>\<close>

definition signature_pattern :: regex where
  "signature_pattern =
     lits ''[SIGNATURE:'' @ [GroupOpen, Rep BASE64 64 None, GroupClose, Lit CHR '']'']"

text \<open>\<^verbatim>\<open>/\[WEB3SIG:0x([0-9a-fA-F]{128,})\]/i\<close>\<close>

definition web3sig_pattern :: regex where
  "web3sig_pattern =
     lits ''[WEB3SIG:0x'' @ [GroupOpen, Rep HEX 128 None, GroupClose, Lit CHR '']'']"

text \<open>\<^verbatim>\<open>/\[DID:(did:[a-z0-9]+:[a-zA-Z0-9._-]+)#SIG:([0-9a-fA-F]{64,})\]/i\<close>\<close>

definition did_pattern :: regex where
  "did_pattern =
     lits ''[DID:'' @ [GroupOpen] @ lits ''did:'' @
     [Rep DID_METHOD 1 None, Lit CHR '':'', Rep DID_ID 1 None, GroupClose] @
     lits ''#SIG:'' @ [GroupOpen, Rep HEX 64 None, GroupClose, Lit CHR '']'']"

text \<open>\<^verbatim>\<open>/\[ETH:0x([0-9a-fA-F]{130})\]/i\<close>\<close>

definition eth_pattern :: regex where
  "eth_pattern =
     lits ''[ETH:0x'' @ [GroupOpen, Rep HEX 130 (Some 130), GroupClose, Lit CHR '']'']"

section \<open>SMSService: the signature extractor\<close>

datatype pattern_name =
  standard_hex | base64_signature | web3_signature | did_signature | ethereum_signature

record SMSSignaturePattern =
  name :: pattern_name
  pattern :: regex
  extractor :: "string list \<Rightarrow> string"

definition signaturePatterns :: "SMSSignaturePattern list" where
  "signaturePatterns =
    [\<lparr>name = standard_hex, pattern = sig_pattern, extractor = (\<lambda>m. grp m 1)\<rparr>,
     \<lparr>name = base64_signature, pattern = signature_pattern, extractor = (\<lambda>m. grp m 1)\<rparr>,
     \<lparr>name = web3_signature, pattern = web3sig_pattern, extractor = (\<lambda>m. ''0x'' @ grp m 1)\<rparr>,
     \<lparr>name = did_signature, pattern = did_pattern, extractor = (\<lambda>m. grp m 2)\<rparr>,
     \<lparr>name = ethereum_signature, pattern = eth_pattern, extractor = (\<lambda>m. ''0x'' @ grp m 1)\<rparr>]"

record ParsedSMS =
  originalMessage :: string
  extractedContent :: string
  signature :: "string option"
  sender :: "string option"
  timestamp :: nat
  phoneNumber :: "string option"
  signatureBlock :: "string option"

text \<open>The loop over the patterns of \<^verbatim>\<open>SMSService.parseSMSMessage\<close>: the first
  pattern that matches sets the signature, the block and the content, and ends the
  loop. The result is (signature, extractedContent, signatureBlock).\<close>

fun try_patterns :: "SMSSignaturePattern list \<Rightarrow> string
    \<Rightarrow> string option \<times> string \<times> string option" where
  "try_patterns [] messageText = (None, messageText, None)"
| "try_patterns (p # ps) messageText =
     (case js_match messageText (pattern p) of
        Some m \<Rightarrow> (Some (extractor p m), trim (remove_first (grp m 0) messageText), Some (grp m 0))
      | None \<Rightarrow> try_patterns ps messageText)"

definition parseSMSMessage :: "string \<Rightarrow> string option \<Rightarrow> nat \<Rightarrow> ParsedSMS" where
  "parseSMSMessage messageText sender_arg now =
     (case try_patterns signaturePatterns messageText of
        (sig, content, block) \<Rightarrow>
          \<lparr>originalMessage = messageText,
           extractedContent = content,
           signature = sig,
           sender = sender_arg,
           timestamp = now,
           phoneNumber = sender_arg,
           signatureBlock = block\<rparr>)"

section \<open>The signature tags, in the words of the specification\<close>

text \<open>Two texts are the same up to the case of their ASCII letters.\<close>

definition same_ci :: "string \<Rightarrow> string \<Rightarrow> bool" where
  "same_ci s t = (map canonicalize s = map canonicalize t)"

text \<open>A bracket tag \<open>[LABEL<payload>]\<close>: the label in any case, a payload of
  characters of one class with its length between the bounds, a closing bracket.\<close>

definition bracket_tag ::
    "string \<Rightarrow> (char \<Rightarrow> bool) \<Rightarrow> nat \<Rightarrow> nat option \<Rightarrow> string \<Rightarrow> string \<Rightarrow> bool" where
  "bracket_tag label ok lo hi tag payload =
     (\<exists>lit. tag = lit @ payload @ '']'' \<and> same_ci lit label \<and> list_all ok payload \<and>
        lo \<le> length payload \<and> (case hi of None \<Rightarrow> True | Some h \<Rightarrow> length payload \<le> h))"

text \<open>The tag \<open>[DID:<did-uri>#SIG:<hex>]\<close>, with the DID \<open>did:<method>:<id>\<close> and
  the signature half as payload.\<close>

definition did_tag :: "string \<Rightarrow> string \<Rightarrow> string \<Rightarrow> bool" where
  "did_tag tag did payload =
     (\<exists>l1 l2 l3 mth ident.
        tag = l1 @ did @ l3 @ payload @ '']'' \<and> did = l2 @ mth @ '':'' @ ident \<and>
        same_ci l1 ''[DID:'' \<and> same_ci l2 ''did:'' \<and> same_ci l3 ''#SIG:'' \<and>
        mth \<noteq> [] \<and> list_all (class_matches DID_METHOD) mth \<and>
        ident \<noteq> [] \<and> list_all (class_matches DID_ID) ident \<and>
        list_all (class_matches HEX) payload \<and> 64 \<le> length payload)"

text \<open>\<open>recognized k tag payload\<close>: \<open>tag\<close> is a well-formed tag of scheme \<open>k\<close>
  that carries the signature \<open>payload\<close>.\<close>

definition recognized :: "pattern_name \<Rightarrow> string \<Rightarrow> string \<Rightarrow> bool" where
  "recognized k tag payload =
     (case k of
        standard_hex \<Rightarrow> bracket_tag ''[SIG:'' (class_matches HEX) 64 None tag payload
      | base64_signature \<Rightarrow>
          bracket_tag ''[SIGNATURE:'' (class_matches BASE64) 64 None tag payload
      | web3_signature \<Rightarrow> bracket_tag ''[WEB3SIG:0x'' (class_matches HEX) 128 None tag payload
      | did_signature \<Rightarrow> (\<exists>did. did_tag tag did payload)
      | ethereum_signature \<Rightarrow>
          bracket_tag ''[ETH:0x'' (class_matches HEX) 130 (Some 130) tag payload)"

text \<open>A tag of scheme \<open>k\<close> starts at offset \<open>i\<close> of the message.\<close>

definition occurs_at :: "pattern_name \<Rightarrow> string \<Rightarrow> nat \<Rightarrow> bool" where
  "occurs_at k msg i =
     (i \<le> length msg \<and> (\<exists>tag payload. recognized k tag payload \<and> startsWith (drop i msg) tag))"

text \<open>The scheme-specific prefix of the returned signature.\<close>

definition scheme_prefix :: "pattern_name \<Rightarrow> string" where
  "scheme_prefix k = (if k = web3_signature \<or> k = ethereum_signature then ''0x'' else [])"

text \<open>Collapsing white space: every run of white space becomes one space, and none is
  left at either end.\<close>

fun squeeze :: "string \<Rightarrow> string" where
  "squeeze [] = []"
| "squeeze (c # cs) =
     (if is_space c then (case squeeze cs of [] \<Rightarrow> [] | d # ds \<Rightarrow>
        if d = CHR '' '' then d # ds else CHR '' '' # d # ds)
      else c # squeeze cs)"

definition collapse_whitespace :: "string \<Rightarrow> string" where
  "collapse_whitespace s = squeeze (trim s)"

section \<open>SupabaseVerificationService: parsing\<close>

text \<open>A RegExp object: its source text and the pattern it denotes.\<close>

record RegExp =
  source :: string
  re :: regex

definition bs :: string where
  "bs = [CHR 0x5C]"

text \<open>The array \<^verbatim>\<open>signaturePatterns\<close> local to the service's own
  \<^verbatim>\<open>parseSMSMessage\<close>, in its order.\<close>

definition service_signaturePatterns :: "RegExp list" where
  "service_signaturePatterns =
    [\<lparr>source = bs @ ''[SIG:([0-9a-fA-F]{64,})'' @ bs @ '']'', re = sig_pattern\<rparr>,
     \<lparr>source = bs @ ''[SIGNATURE:([A-Za-z0-9+/=]{64,})'' @ bs @ '']'', re = signature_pattern\<rparr>,
     \<lparr>source = bs @ ''[WEB3SIG:0x([0-9a-fA-F]{128,})'' @ bs @ '']'', re = web3sig_pattern\<rparr>,
     \<lparr>source = bs @ ''[ETH:0x([0-9a-fA-F]{130})'' @ bs @ '']'', re = eth_pattern\<rparr>,
     \<lparr>source = bs @ ''[DID:(did:[a-z0-9]+:[a-zA-Z0-9._-]+)#SIG:([0-9a-fA-F]{64,})'' @ bs @ '']'',
      re = did_pattern\<rparr>]"

text \<open>\<^verbatim>\<open>s.includes(sub)\<close>.\<close>

fun js_includes :: "string \<Rightarrow> string \<Rightarrow> bool" where
  "js_includes [] sub = (sub = [])"
| "js_includes (c # cs) sub = (startsWith (c # cs) sub \<or> js_includes cs sub)"

record ParsedMessage =
  pm_content :: string
  pm_signature :: string
  pm_senderAddress :: string
  pm_originalMessage :: string

text \<open>The loop of the service's \<^verbatim>\<open>parseSMSMessage\<close>; the result is
  (signature, content, senderAddress), each starting from its initial value.\<close>

fun service_try_patterns :: "RegExp list \<Rightarrow> string \<Rightarrow> string \<times> string \<times> string" where
  "service_try_patterns [] smsContent = ([], smsContent, [])"
| "service_try_patterns (p # ps) smsContent =
     (case js_match smsContent (re p) of
        Some m \<Rightarrow>
          (let content = trim (remove_first (grp m 0) smsContent) in
           if js_includes (source p) ''DID:'' then (grp m 2, content, grp m 1)
           else if js_includes (source p) ''WEB3SIG:'' \<or> js_includes (source p) ''ETH:''
             then (''0x'' @ grp m 1, content, [])
           else (grp m 1, content, []))
      | None \<Rightarrow> service_try_patterns ps smsContent)"

definition service_parseSMSMessage :: "string \<Rightarrow> ParsedMessage" where
  "service_parseSMSMessage smsContent =
     (case service_try_patterns service_signaturePatterns smsContent of
        (sig, content, senderAddress) \<Rightarrow>
          \<lparr>pm_content = content, pm_signature = sig, pm_senderAddress = senderAddress,
           pm_originalMessage = smsContent\<rparr>)"

section \<open>The hosted backend\<close>

datatype verification_status = pending | verified | rejected | failed

datatype json = JString string | JNumber nat

type_synonym details = "(string \<times> json) list"

record Organization =
  org_id :: string
  org_name :: string
  wallet_address :: string
  org_status :: verification_status
  metadata_phone :: "string option"

record OrganizationWallet =
  ow_organization_id :: string
  ow_wallet_address :: string
  is_active :: bool

text \<open>The object \<^verbatim>\<open>Partial<VerifiedMessage>\<close> handed to the insert, and the stored
  row. A column the client leaves out is \<open>None\<close> (SQL \<^verbatim>\<open>NULL\<close>).\<close>

record MessageData =
  organization_id :: "string option"
  message_content :: string
  msg_signature :: string
  sender_address :: string
  msg_status :: verification_status
  verification_details :: "details option"
  message_hash :: "string option"
  verified_at :: "string option"

record VerifiedMessage = MessageData +
  vm_id :: string
  created_at :: string

record MessageVerificationAttempt =
  att_id :: string
  message_id :: string
  attempted_by :: string
  verification_method :: string
  att_success :: bool
  att_organization_id :: "string option"

record database =
  organizations :: "Organization list"
  organization_wallets :: "OrganizationWallet list"
  verified_messages :: "VerifiedMessage list"
  message_verification_attempts :: "MessageVerificationAttempt list"
  auth_user :: "string option"

text \<open>What one request to the backend can do besides being served: come back with an
  error object (code and message), or reject, which the awaiting code sees as an
  exception.\<close>

datatype fault = Served | ErrorReply string string | Rejects string

text \<open>The surroundings of one call: the configured URL, the clock, the digest of the
  database, the identifiers the database hands out, and the fate of each request.\<close>

record env =
  supabaseUrl :: "string option"
  now_ms :: nat
  now_iso :: string
  sha256_hex :: "string \<Rightarrow> string"
  new_message_id :: string
  new_attempt_id :: string
  rpc_fault :: fault
  insert_message_fault :: fault
  get_user_fault :: fault
  insert_attempt_fault :: fault
  directory_fault :: fault

text \<open>\<^verbatim>\<open>!supabaseUrl\<close>: the variable is unset or empty.\<close>

definition unconfigured :: "env \<Rightarrow> bool" where
  "unconfigured e = (case supabaseUrl e of None \<Rightarrow> True | Some u \<Rightarrow> u = [])"

record world =
  db :: database
  console :: "string list"

definition console_error :: "string \<Rightarrow> world \<Rightarrow> world" where
  "console_error line w = w\<lparr>console := console w @ [line]\<rparr>"

subsection \<open>The stored procedures and constraints of the migration\<close>

text \<open>\<^verbatim>\<open>get_organization_by_wallet(wallet_addr)\<close>\<close>

definition get_organization_by_wallet :: "database \<Rightarrow> string \<Rightarrow> Organization list" where
  "get_organization_by_wallet d wallet_addr =
     filter (\<lambda>org. wallet_address org = wallet_addr \<or>
                 list_ex (\<lambda>ow. ow_organization_id ow = org_id org \<and>
                                ow_wallet_address ow = wallet_addr \<and> is_active ow)
                   (organization_wallets d))
       (organizations d)"

record verification_row =
  is_valid :: bool
  row_organization_id :: "string option"
  row_organization_name :: "string option"
  row_verification_details :: details

text \<open>\<^verbatim>\<open>verify_message_signature(message_content, signature, sender_addr)\<close>; the
  format check is \<^verbatim>\<open>signature ~ '^[0-9a-fA-F]{128,}$'\<close>.\<close>

definition verify_message_signature ::
    "env \<Rightarrow> database \<Rightarrow> string \<Rightarrow> string \<Rightarrow> string \<Rightarrow> verification_row" where
  "verify_message_signature e d content sig sender_addr =
     (case filter (\<lambda>org. org_status org = verified) (get_organization_by_wallet d sender_addr) of
        [] \<Rightarrow>
          \<lparr>is_valid = False, row_organization_id = None, row_organization_name = None,
           row_verification_details =
             [(''error'', JString ''Organization not found or not verified'')]\<rparr>
      | org # _ \<Rightarrow>
          (let verification_result =
                 [(''signature_length'', JNumber (length sig)),
                  (''message_hash'', JString (sha256_hex e content)),
                  (''verified_at'', JNumber (now_ms e)),
                  (''verification_method'', JString ''supabase_function'')]
           in if list_all (class_matches HEX) sig \<and> 128 \<le> length sig
              then \<lparr>is_valid = True, row_organization_id = Some (org_id org),
                    row_organization_name = Some (org_name org),
                    row_verification_details = verification_result\<rparr>
              else \<lparr>is_valid = False, row_organization_id = Some (org_id org),
                    row_organization_name = Some (org_name org),
                    row_verification_details =
                      verification_result @ [(''error'', JString ''Invalid signature format'')]\<rparr>))"

text \<open>
  The constraint \<^verbatim>\<open>UNIQUE (signature, message_hash)\<close> of \<^verbatim>\<open>verified_messages\<close>:
  two rows collide when both columns are equal, and a \<^verbatim>\<open>NULL\<close> hash equals nothing.
\<close>

definition violates_unique :: "VerifiedMessage list \<Rightarrow> MessageData \<Rightarrow> bool" where
  "violates_unique rows m =
     list_ex (\<lambda>r. msg_signature r = msg_signature m \<and> message_hash r \<noteq> None \<and>
                  message_hash r = message_hash m) rows"

text \<open>An insert into \<^verbatim>\<open>verified_messages\<close> followed by the select of the new row. The
  insert policy admits authenticated users only; the result is the error (code and
  message) or the stored row.\<close>

definition insert_verified_message ::
    "env \<Rightarrow> database \<Rightarrow> MessageData \<Rightarrow> (string \<times> string) + (VerifiedMessage \<times> database)" where
  "insert_verified_message e d m =
     (if auth_user d = None then Inl (''42501'', ''new row violates row-level security policy'')
      else if violates_unique (verified_messages d) m
        then Inl (''23505'', ''duplicate key value violates unique constraint'')
      else
        (let row = MessageData.extend m
                     (VerifiedMessage.fields (new_message_id e) (now_iso e))
         in Inr (row, d\<lparr>verified_messages := verified_messages d @ [row]\<rparr>)))"

text \<open>An insert into \<^verbatim>\<open>message_verification_attempts\<close>; the policy wants
  \<^verbatim>\<open>attempted_by = auth.uid()\<close>.\<close>

definition insert_attempt ::
    "database \<Rightarrow> MessageVerificationAttempt \<Rightarrow> (string \<times> string) + database" where
  "insert_attempt d a =
     (if auth_user d \<noteq> Some (attempted_by a)
      then Inl (''42501'', ''new row violates row-level security policy'')
      else Inr (d\<lparr>message_verification_attempts := message_verification_attempts d @ [a]\<rparr>))"

section \<open>lib/supabase: the client calls\<close>

text \<open>The \<^verbatim>\<open>{ data, error }\<close> object a client call resolves to.\<close>

record 'a reply =
  data :: "'a option"
  reply_error :: "string option"

text \<open>Decimal digits of a number, for \<^verbatim>\<open>'mock-msg-' + Date.now()\<close>.\<close>

fun show_nat :: "nat \<Rightarrow> string" where
  "show_nat n =
     (if n < 10 then [char_of (48 + n)]
      else show_nat (n div 10) @ [char_of (48 + n mod 10)])"

text \<open>\<^verbatim>\<open>handleSupabaseError(error, operation)\<close>: logs, and maps the error code to the
  message of the returned error object.\<close>

definition handleSupabaseError ::
    "string option \<Rightarrow> string \<Rightarrow> string \<Rightarrow> world \<Rightarrow> string \<times> world" where
  "handleSupabaseError err_code err_message operation w =
     ((if err_code = Some ''PGRST116'' then ''No data found''
       else if err_code = Some ''23505'' then ''Duplicate entry - record already exists''
       else if err_code = Some ''42501'' then ''Permission denied - check your access rights''
       else if err_message = [] then ''Unknown database error'' else err_message),
      console_error (''Supabase '' @ operation @ '' error:'') w)"

definition verifyMessage ::
    "env \<Rightarrow> world \<Rightarrow> string \<Rightarrow> string \<Rightarrow> string \<Rightarrow> verification_row reply \<times> world" where
  "verifyMessage e w messageContent sig senderAddress =
     (if unconfigured e then
        (\<lparr>data = Some
            \<lparr>is_valid = (64 \<le> length sig \<and> 0 < length messageContent),
             row_organization_id = Some ''mock-org-1'',
             row_organization_name = Some ''Mock Organization'',
             row_verification_details =
               [(''timestamp'', JNumber (now_ms e)),
                (''method'', JString ''mock''),
                (''signature_format'', JString ''hex''),
                (''message_hash'', JString (take 8 messageContent))]\<rparr>,
          reply_error = None\<rparr>, w)
      else
        (case rpc_fault e of
           Served \<Rightarrow>
             (\<lparr>data = (case [verify_message_signature e (db w) messageContent sig senderAddress]
                       of [] \<Rightarrow> None | r # _ \<Rightarrow> Some r),
               reply_error = None\<rparr>, w)
         | ErrorReply c m \<Rightarrow>
             (case handleSupabaseError (Some c) m ''message verification'' w of
                (msg, w') \<Rightarrow> (\<lparr>data = None, reply_error = Some msg\<rparr>, w'))
         | Rejects m \<Rightarrow>
             (case handleSupabaseError None m ''message verification'' w of
                (msg, w') \<Rightarrow> (\<lparr>data = None, reply_error = Some msg\<rparr>, w'))))"

text \<open>\<^verbatim>\<open>saveVerifiedMessage\<close>: a plain insert. \<open>Inl\<close> is an exception that passes
  through, since the call has no handler of its own.\<close>

definition saveVerifiedMessage ::
    "env \<Rightarrow> world \<Rightarrow> MessageData \<Rightarrow> (string + VerifiedMessage reply) \<times> world" where
  "saveVerifiedMessage e w messageData =
     (if unconfigured e then
        (Inr \<lparr>data = Some (MessageData.extend messageData
                 (VerifiedMessage.fields (''mock-msg-'' @ show_nat (now_ms e)) (now_iso e))),
              reply_error = None\<rparr>, w)
      else
        (case insert_message_fault e of
           Rejects x \<Rightarrow> (Inl x, w)
         | ErrorReply c m \<Rightarrow> (Inr \<lparr>data = None, reply_error = Some m\<rparr>, w)
         | Served \<Rightarrow>
             (case insert_verified_message e (db w) messageData of
                Inl (c, m) \<Rightarrow> (Inr \<lparr>data = None, reply_error = Some m\<rparr>, w)
              | Inr (row, d') \<Rightarrow> (Inr \<lparr>data = Some row, reply_error = None\<rparr>, w\<lparr>db := d'\<rparr>))))"

definition recordVerificationAttempt ::
    "env \<Rightarrow> world \<Rightarrow> MessageVerificationAttempt
       \<Rightarrow> (string + MessageVerificationAttempt reply) \<times> world" where
  "recordVerificationAttempt e w attemptData =
     (if unconfigured e then
        (Inr \<lparr>data = Some (attemptData\<lparr>att_id := ''mock-attempt-'' @ show_nat (now_ms e)\<rparr>),
              reply_error = None\<rparr>, w)
      else
        (case insert_attempt_fault e of
           Rejects x \<Rightarrow> (Inl x, w)
         | ErrorReply c m \<Rightarrow> (Inr \<lparr>data = None, reply_error = Some m\<rparr>, w)
         | Served \<Rightarrow>
             (let row = attemptData\<lparr>att_id := new_attempt_id e\<rparr> in
              case insert_attempt (db w) row of
                Inl (c, m) \<Rightarrow> (Inr \<lparr>data = None, reply_error = Some m\<rparr>, w)
              | Inr d' \<Rightarrow> (Inr \<lparr>data = Some row, reply_error = None\<rparr>, w\<lparr>db := d'\<rparr>))))"

text \<open>\<^verbatim>\<open>supabase.auth.getUser()\<close>: the identifier of the signed-in user, if any.\<close>

definition getUser :: "env \<Rightarrow> world \<Rightarrow> string + string option" where
  "getUser e w =
     (case get_user_fault e of
        Rejects x \<Rightarrow> Inl x
      | ErrorReply c m \<Rightarrow> Inr None
      | Served \<Rightarrow> Inr (auth_user (db w)))"

section \<open>SupabaseVerificationService: verification and persistence\<close>

record VerificationResult =
  isValid :: bool
  success :: "bool option"
  organizationId :: "string option"
  organizationName :: "string option"
  verificationDetails :: "details option"
  message :: "string option"
  error :: "string option"

definition failure :: "string \<Rightarrow> VerificationResult" where
  "failure msg =
     \<lparr>isValid = False, success = Some False, organizationId = None, organizationName = None,
      verificationDetails = None, message = None, error = Some msg\<rparr>"

record save_params =
  p_messageContent :: string
  p_signature :: string
  p_senderAddress :: string
  p_organizationId :: "string option"
  p_verificationDetails :: "details option"
  p_verificationMethod :: string

text \<open>\<^verbatim>\<open>saveVerificationResult\<close>: the whole body is inside one try block whose
  handler logs.\<close>

definition saveVerificationResult :: "env \<Rightarrow> world \<Rightarrow> save_params \<Rightarrow> world" where
  "saveVerificationResult e w params =
     (let messageData =
            \<lparr>organization_id = p_organizationId params,
             message_content = p_messageContent params,
             msg_signature = p_signature params,
             sender_address = p_senderAddress params,
             msg_status = verified,
             verification_details = p_verificationDetails params,
             message_hash = None,
             verified_at = Some (now_iso e)\<rparr>
      in case saveVerifiedMessage e w messageData of
           (Inl x, w1) \<Rightarrow> console_error ''Error saving verification result:'' w1
         | (Inr saved, w1) \<Rightarrow>
             (case reply_error saved of
                Some messageError \<Rightarrow> console_error ''Error saving verified message:'' w1
              | None \<Rightarrow>
                  (case getUser e w1 of
                     Inl x \<Rightarrow> console_error ''Error saving verification result:'' w1
                   | Inr user \<Rightarrow>
                       (case (user, data saved) of
                          (Some uid, Some savedMessage) \<Rightarrow>
                            (let attemptData =
                                   \<lparr>att_id = [],
                                    message_id = vm_id savedMessage,
                                    attempted_by = uid,
                                    verification_method = p_verificationMethod params,
                                    att_success = True,
                                    att_organization_id = p_organizationId params\<rparr>
                             in case recordVerificationAttempt e w1 attemptData of
                                  (Inl x, w2) \<Rightarrow>
                                    console_error ''Error saving verification result:'' w2
                                | (Inr r, w2) \<Rightarrow> w2)
                        | _ \<Rightarrow> w1))))"

text \<open>\<^verbatim>\<open>signature.replace(/^0x/, '')\<close>\<close>

definition strip_0x :: "string \<Rightarrow> string" where
  "strip_0x s = (if startsWith s ''0x'' then drop 2 s else s)"

text \<open>The text a template literal prints for a value that may be \<^verbatim>\<open>null\<close>.\<close>

definition interpolate :: "string option \<Rightarrow> string" where
  "interpolate v = (case v of None \<Rightarrow> ''null'' | Some x \<Rightarrow> x)"

text \<open>\<^verbatim>\<open>verifyMessageSignature\<close>. Neither \<^verbatim>\<open>verifyMessage\<close> nor
  \<^verbatim>\<open>saveVerificationResult\<close> lets an exception out, so the outer handler has no
  branch here.\<close>

definition verifyMessageSignature ::
    "env \<Rightarrow> world \<Rightarrow> string \<Rightarrow> string \<Rightarrow> string \<Rightarrow> string \<Rightarrow> VerificationResult \<times> world" where
  "verifyMessageSignature e w messageContent sig senderAddress verificationMethod =
     (let cleanContent = trim messageContent;
          cleanSignature = toLowerCase (strip_0x sig);
          cleanSender = toLowerCase senderAddress
      in case verifyMessage e w cleanContent cleanSignature cleanSender of
           (r, w1) \<Rightarrow>
             (case reply_error r of
                Some err \<Rightarrow>
                  (failure ''Verification service error'',
                   console_error ''Supabase verification error:'' w1)
              | None \<Rightarrow>
                  (case data r of
                     None \<Rightarrow> (failure ''No verification result returned'', w1)
                   | Some verificationResult \<Rightarrow>
                       (let w2 =
                              (if is_valid verificationResult then
                                 saveVerificationResult e w1
                                   \<lparr>p_messageContent = cleanContent,
                                    p_signature = cleanSignature,
                                    p_senderAddress = cleanSender,
                                    p_organizationId = row_organization_id verificationResult,
                                    p_verificationDetails =
                                      Some (row_verification_details verificationResult),
                                    p_verificationMethod = verificationMethod\<rparr>
                               else w1)
                        in (\<lparr>isValid = is_valid verificationResult,
                             success = Some True,
                             organizationId = row_organization_id verificationResult,
                             organizationName = row_organization_name verificationResult,
                             verificationDetails =
                               Some (row_verification_details verificationResult),
                             message = Some
                               (if is_valid verificationResult
                                then ''Message verified from '' @
                                     interpolate (row_organization_name verificationResult)
                                else ''Message verification failed''),
                             error = None\<rparr>, w2)))))"

definition fallback_address :: string where
  "fallback_address = ''0x1111111111111111111111111111111111111111''"

text \<open>\<^verbatim>\<open>resolveSenderAddress\<close>; \<open>Inl\<close> is a rejected directory query, which the
  function does not handle.\<close>

definition resolveSenderAddress ::
    "env \<Rightarrow> world \<Rightarrow> string \<Rightarrow> string option \<Rightarrow> string + string option" where
  "resolveSenderAddress e w extractedAddress senderPhone =
     (if extractedAddress \<noteq> [] \<and>
         (startsWith extractedAddress ''did:'' \<or> startsWith extractedAddress ''0x'')
      then Inr (Some extractedAddress)
      else
        (case senderPhone of
           None \<Rightarrow> Inr (Some fallback_address)
         | Some phone \<Rightarrow>
             if phone = [] then Inr (Some fallback_address)
             else
               (case directory_fault e of
                  Rejects x \<Rightarrow> Inl x
                | ErrorReply c m \<Rightarrow> Inr (Some fallback_address)
                | Served \<Rightarrow>
                    (case take 1 (filter (\<lambda>org. metadata_phone org = Some phone \<and>
                                                org_status org = verified)
                                    (organizations (db w))) of
                       org # _ \<Rightarrow> Inr (Some (wallet_address org))
                     | [] \<Rightarrow> Inr (Some fallback_address)))))"

text \<open>\<^verbatim>\<open>verifySMSMessage\<close>; the test \<^verbatim>\<open>!senderAddress\<close> holds for
  \<^verbatim>\<open>null\<close> and for the empty string.\<close>

definition verifySMSMessage ::
    "env \<Rightarrow> world \<Rightarrow> string \<Rightarrow> string option \<Rightarrow> VerificationResult \<times> world" where
  "verifySMSMessage e w smsContent senderPhone =
     (let parsed = service_parseSMSMessage smsContent in
      if pm_signature parsed = [] then (failure ''No signature found in SMS message'', w)
      else
        (case resolveSenderAddress e w (pm_senderAddress parsed) senderPhone of
           Inl x \<Rightarrow> (failure ''SMS verification failed'', console_error ''SMS verification error:'' w)
         | Inr None \<Rightarrow> (failure ''Could not resolve sender wallet address'', w)
         | Inr (Some senderAddress) \<Rightarrow>
             if senderAddress = []
             then (failure ''Could not resolve sender wallet address'', w)
             else verifyMessageSignature e w (pm_content parsed) (pm_signature parsed)
                    senderAddress ''sms''))"

section \<open>DataSyncService\<close>

record SyncStatus =
  lastSync :: string
  pendingUploads :: nat
  status_syncInProgress :: bool
  errors :: "string list"

text \<open>The service object with the device storage it writes to. \<open>fetch_cycles\<close> is
  not a field of the source: it counts the fetch cycles started, one for every query of
  the organizations table that \<^verbatim>\<open>syncData\<close> issues.\<close>

record sync_service =
  syncInProgress :: bool
  storage :: "string \<rightharpoonup> string"
  fetch_cycles :: nat

text \<open>
  A call of \<^verbatim>\<open>syncData\<close> runs until its next \<^verbatim>\<open>await\<close> and is then
  suspended until the awaited operation settles; other calls run in between. A task
  is a call at such a point, or a finished one.
\<close>

datatype task =
    AwaitStatus
  | AwaitFetchOrganizations
  | AwaitStoreOrganizations string
  | AwaitFetchMessages
  | AwaitStoreMessages string
  | AwaitStoreLastSync string
  | AwaitLastSync "string list"
  | Returned SyncStatus
  | Rejected string

text \<open>How an awaited operation settles: it resolves (a query with the rows as JSON text),
  or it fails with a message (a rejection, or the error of a query reply, which the
  source throws).\<close>

datatype outcome = Resolves string | Fails string

definition read_lastSync :: "sync_service \<Rightarrow> string" where
  "read_lastSync s =
     (case storage s ''lastSync'' of None \<Rightarrow> ''Never'' | Some v \<Rightarrow> if v = [] then ''Never'' else v)"

text \<open>The start of a call, up to its first \<^verbatim>\<open>await\<close>.\<close>

definition invoke :: "sync_service \<Rightarrow> task \<times> sync_service" where
  "invoke s =
     (if syncInProgress s then (AwaitStatus, s)
      else (AwaitFetchOrganizations,
            s\<lparr>syncInProgress := True, fetch_cycles := fetch_cycles s + 1\<rparr>))"

text \<open>The handler of \<^verbatim>\<open>syncData\<close> followed by its \<^verbatim>\<open>finally\<close> block, up to
  the read of \<open>lastSync\<close> for the returned status.\<close>

definition abort :: "string \<Rightarrow> sync_service \<Rightarrow> task \<times> sync_service" where
  "abort msg s = (AwaitLastSync [msg], s\<lparr>syncInProgress := False\<rparr>)"

text \<open>A suspended call goes on when its awaited operation settles, up to its next
  \<^verbatim>\<open>await\<close> or its end. \<open>now\<close> is the clock at that moment; the time stamp
  of \<open>lastSync\<close> is taken when its write is issued.\<close>

fun resume :: "outcome \<Rightarrow> string \<Rightarrow> task \<Rightarrow> sync_service \<Rightarrow> task \<times> sync_service" where
  "resume (Resolves v) now AwaitStatus s =
     (Returned \<lparr>lastSync = read_lastSync s, pendingUploads = 0,
                status_syncInProgress = syncInProgress s, errors = []\<rparr>, s)"
| "resume (Fails x) now AwaitStatus s = (Rejected x, s)"
| "resume (Resolves rows) now AwaitFetchOrganizations s = (AwaitStoreOrganizations rows, s)"
| "resume (Fails x) now AwaitFetchOrganizations s = abort x s"
| "resume (Resolves v) now (AwaitStoreOrganizations rows) s =
     (AwaitFetchMessages, s\<lparr>storage := (storage s)(''cached_organizations'' \<mapsto> rows)\<rparr>)"
| "resume (Fails x) now (AwaitStoreOrganizations rows) s = abort x s"
| "resume (Resolves rows) now AwaitFetchMessages s = (AwaitStoreMessages rows, s)"
| "resume (Fails x) now AwaitFetchMessages s = abort x s"
| "resume (Resolves v) now (AwaitStoreMessages rows) s =
     (AwaitStoreLastSync now, s\<lparr>storage := (storage s)(''cached_messages'' \<mapsto> rows)\<rparr>)"
| "resume (Fails x) now (AwaitStoreMessages rows) s = abort x s"
| "resume (Resolves v) now (AwaitStoreLastSync stamp) s =
     (AwaitLastSync [],
      s\<lparr>storage := (storage s)(''lastSync'' \<mapsto> stamp), syncInProgress := False\<rparr>)"
| "resume (Fails x) now (AwaitStoreLastSync stamp) s = abort x s"
| "resume (Resolves v) now (AwaitLastSync errs) s =
     (Returned \<lparr>lastSync = read_lastSync s, pendingUploads = 0,
                status_syncInProgress = False, errors = errs\<rparr>, s)"
| "resume (Fails x) now (AwaitLastSync errs) s = (Rejected x, s)"
| "resume out now (Returned st) s = (Returned st, s)"
| "resume out now (Rejected x) s = (Rejected x, s)"

fun finished :: "task \<Rightarrow> bool" where
  "finished (Returned st) = True"
| "finished (Rejected x) = True"
| "finished t = False"

text \<open>Between the query of the organizations table and the \<^verbatim>\<open>finally\<close> block.\<close>

fun syncing :: "task \<Rightarrow> bool" where
  "syncing AwaitFetchOrganizations = True"
| "syncing (AwaitStoreOrganizations rows) = True"
| "syncing AwaitFetchMessages = True"
| "syncing (AwaitStoreMessages rows) = True"
| "syncing (AwaitStoreLastSync stamp) = True"
| "syncing t = False"

text \<open>One call of \<^verbatim>\<open>syncData\<close> on its own, from its start through the settling of
  its awaited operations, given in order with the clock.\<close>

fun settle :: "(outcome \<times> string) list \<Rightarrow> task \<times> sync_service \<Rightarrow> task \<times> sync_service" where
  "settle [] (t, s) = (t, s)"
| "settle ((out, now) # rest) (t, s) =
     (if finished t then (t, s) else settle rest (resume out now t s))"

definition syncData :: "(outcome \<times> string) list \<Rightarrow> sync_service \<Rightarrow> task \<times> sync_service" where
  "syncData outs s = settle outs (invoke s)"

text \<open>Several calls in flight on one service: a step starts a new call, or settles the
  awaited operation of a suspended one.\<close>

record system =
  service :: sync_service
  tasks :: "task list"

definition calls :: "system \<Rightarrow> system" where
  "calls \<sigma> =
     (case invoke (service \<sigma>) of
        (t, s') \<Rightarrow> \<lparr>service = s', tasks = tasks \<sigma> @ [t]\<rparr>)"

inductive settling :: "system \<Rightarrow> system \<Rightarrow> bool" where
  settles:
    "i < length (tasks \<sigma>) \<Longrightarrow> \<not> finished (tasks \<sigma> ! i) \<Longrightarrow>
     resume out now (tasks \<sigma> ! i) (service \<sigma>) = (t', s') \<Longrightarrow>
     settling \<sigma> \<lparr>service = s', tasks = (tasks \<sigma>)[i := t']\<rparr>"

definition sys_step :: "system \<Rightarrow> system \<Rightarrow> bool" where
  "sys_step \<sigma> \<sigma>' = (\<sigma>' = calls \<sigma> \<or> settling \<sigma> \<sigma>')"

definition initial :: "(string \<rightharpoonup> string) \<Rightarrow> system" where
  "initial st =
     \<lparr>service = \<lparr>syncInProgress = False, storage = st, fetch_cycles = 0\<rparr>, tasks = []\<rparr>"

definition reachable :: "system \<Rightarrow> bool" where
  "reachable \<sigma> = (\<exists>st. sys_step\<^sup>*\<^sup>* (initial st) \<sigma>)"

section \<open>Unresolvable senders, in the words of the specification\<close>

text \<open>The directory query for a phone number is served and finds no verified
  organization.\<close>

definition directory_miss :: "env \<Rightarrow> world \<Rightarrow> string \<Rightarrow> bool" where
  "directory_miss e w phone =
     (directory_fault e = Served \<and>
      filter (\<lambda>org. metadata_phone org = Some phone \<and> org_status org = verified)
        (organizations (db w)) = [])"

text \<open>An unresolvable sender, in the words of the specification: the hint is empty, and
  no phone number is supplied or the directory lookup misses.\<close>

definition unresolvable :: "env \<Rightarrow> world \<Rightarrow> string \<Rightarrow> string option \<Rightarrow> bool" where
  "unresolvable e w hint phone =
     (hint = [] \<and> (case phone of None \<Rightarrow> True | Some ph \<Rightarrow> ph = [] \<or> directory_miss e w ph))"

section \<open>Sample surroundings\<close>

definition empty_database :: database where
  "empty_database =
     \<lparr>organizations = [], organization_wallets = [], verified_messages = [],
      message_verification_attempts = [], auth_user = None\<rparr>"

definition quiet_world :: world where
  "quiet_world = \<lparr>db = empty_database, console = []\<rparr>"

text \<open>No backend URL is configured; every request is served.\<close>

definition mock_env :: env where
  "mock_env =
     \<lparr>supabaseUrl = None, now_ms = 0, now_iso = ''2024-01-01T00:00:00.000Z'',
      sha256_hex = id, new_message_id = ''m1'', new_attempt_id = ''a1'',
      rpc_fault = Served, insert_message_fault = Served, get_user_fault = Served,
      insert_attempt_fault = Served, directory_fault = Served\<rparr>"

text \<open>A configured backend that serves every request.\<close>

definition live_env :: env where
  "live_env = mock_env\<lparr>supabaseUrl := Some ''https://project.supabase.co''\<rparr>"

text \<open>An idle service; the same service with one sync waiting for its first write; and
  later, with a second call that has returned its status.\<close>

definition idle_service :: sync_service where
  "idle_service = \<lparr>syncInProgress = False, storage = Map.empty, fetch_cycles = 0\<rparr>"

definition busy_service :: sync_service where
  "busy_service = \<lparr>syncInProgress = True, storage = Map.empty, fetch_cycles = 1\<rparr>"

definition first_in_flight :: system where
  "first_in_flight = \<lparr>service = busy_service, tasks = [AwaitStoreOrganizations ''[]'']\<rparr>"

definition second_returned :: system where
  "second_returned =
     \<lparr>service = busy_service,
      tasks = [AwaitStoreOrganizations ''[]'',
               Returned \<lparr>lastSync = ''Never'', pendingUploads = 0,
                         status_syncInProgress = True, errors = []\<rparr>]\<rparr>"

text \<open>The awaited operations of a sync whose query of the organizations fails.\<close>

definition failing_run :: "(outcome \<times> string) list" where
  "failing_run =
     [(Fails ''network'', ''t1''), (Resolves [], ''t2''), (Resolves [], ''t3''),
      (Resolves [], ''t4''), (Resolves [], ''t5''), (Resolves [], ''t6'')]"

text \<open>Sample signatures, tags and messages.\<close>

definition sig64 :: string where
  "sig64 = replicate 64 CHR ''a''"

definition sig130 :: string where
  "sig130 = replicate 130 CHR ''b''"

definition hex_tag :: string where
  "hex_tag = ''[SIG:'' @ sig64 @ '']''"

definition eth_tag :: string where
  "eth_tag = ''[ETH:0x'' @ sig130 @ '']''"

definition did_sample_tag :: string where
  "did_sample_tag = ''[DID:did:web:acme#SIG:'' @ sig64 @ '']''"

definition hello_message :: string where
  "hello_message = ''Hello '' @ hex_tag @ '' world''"

definition pay_message :: string where
  "pay_message = ''Pay now '' @ hex_tag"

definition two_tag_message :: string where
  "two_tag_message = eth_tag @ '' '' @ did_sample_tag"

definition short_tag_message :: string where
  "short_tag_message = ''Code 4821 [SIG:abcd]''"


text \<open>A directory with the verified organization Acme Bank at the fallback address, and
  a signed-in user; a signature of 128 hexadecimal digits; the surroundings of a second
  call; a backend that answers the insert of the attempt, or of the message, with an
  error.\<close>

definition acme_world :: world where
  "acme_world =
     \<lparr>db = empty_database
        \<lparr>organizations :=
           [\<lparr>org_id = ''org-acme'', org_name = ''Acme Bank'',
             wallet_address = fallback_address, org_status = verified,
             metadata_phone = None\<rparr>],
         auth_user := Some ''user-1''\<rparr>,
      console = []\<rparr>"

definition sig128 :: string where
  "sig128 = replicate 128 CHR ''a''"

definition test_content :: string where
  "test_content = ''Test message for verification''"

definition second_env :: env where
  "second_env = live_env\<lparr>new_message_id := ''m2'', new_attempt_id := ''a2''\<rparr>"

definition attempt_error_env :: env where
  "attempt_error_env =
     live_env\<lparr>insert_attempt_fault := ErrorReply ''08006'' ''connection failure''\<rparr>"

definition message_error_env :: env where
  "message_error_env =
     live_env\<lparr>insert_message_fault := ErrorReply ''08006'' ''connection failure''\<rparr>"

text \<open>The row the stored procedure returns for the sample content and signature from
  Acme Bank.\<close>

definition acme_row :: "env \<Rightarrow> verification_row" where
  "acme_row e =
     \<lparr>is_valid = True, row_organization_id = Some ''org-acme'',
      row_organization_name = Some ''Acme Bank'',
      row_verification_details =
        [(''signature_length'', JNumber 128),
         (''message_hash'', JString (sha256_hex e test_content)),
         (''verified_at'', JNumber (now_ms e)),
         (''verification_method'', JString ''supabase_function'')]\<rparr>"

text \<open>The parameters \<^verbatim>\<open>verifyMessageSignature\<close> hands to
  \<^verbatim>\<open>saveVerificationResult\<close> for that row.\<close>

definition acme_params :: "env \<Rightarrow> string \<Rightarrow> save_params" where
  "acme_params e via =
     \<lparr>p_messageContent = test_content, p_signature = sig128,
      p_senderAddress = fallback_address, p_organizationId = Some ''org-acme'',
      p_verificationDetails = Some (row_verification_details (acme_row e)),
      p_verificationMethod = via\<rparr>"

text \<open>The world after the sample verification, after the same verification once more,
  and after the sample verification when the insert of the attempt, or of the message,
  is answered with an error.\<close>

definition after_first :: world where
  "after_first =
     snd (verifyMessageSignature live_env acme_world test_content sig128 fallback_address
            ''manual'')"

definition after_second :: world where
  "after_second =
     snd (verifyMessageSignature second_env after_first test_content sig128 fallback_address
            ''manual'')"

definition after_attempt_error :: world where
  "after_attempt_error =
     snd (verifyMessageSignature attempt_error_env acme_world test_content sig128
            fallback_address ''manual'')"

definition after_message_error :: world where
  "after_message_error =
     snd (verifyMessageSignature message_error_env acme_world test_content sig128
            fallback_address ''manual'')"

section \<open>Auxiliary notions of the proofs\<close>

text \<open>The pattern \<open>r\<close> goes on with the literal \<open>a\<close>, possibly after closing a
  group.\<close>

definition starts_with_lit :: "regex \<Rightarrow> char \<Rightarrow> bool" where
  "starts_with_lit r a = (\<exists>r'. r = Lit a # r' \<or> r = GroupClose # Lit a # r')"

text \<open>The four patterns with one label and one payload.\<close>

definition bracket_pattern :: "string \<Rightarrow> char_class \<Rightarrow> nat \<Rightarrow> nat option \<Rightarrow> regex" where
  "bracket_pattern label cls lo hi = lits label @ [GroupOpen, Rep cls lo hi, GroupClose, Lit CHR '']'']"

text \<open>The code of the canonical form of a character.\<close>

definition fold_code :: "nat \<Rightarrow> nat" where
  "fold_code n = (if 97 \<le> n \<and> n \<le> 122 then n - 32 else n)"

text \<open>The number of awaited operations a call still has before it ends, at most.\<close>

fun awaits_left :: "task \<Rightarrow> nat" where
  "awaits_left AwaitFetchOrganizations = 6"
| "awaits_left (AwaitStoreOrganizations rows) = 5"
| "awaits_left AwaitFetchMessages = 4"
| "awaits_left (AwaitStoreMessages rows) = 3"
| "awaits_left (AwaitStoreLastSync stamp) = 2"
| "awaits_left (AwaitLastSync errs) = 1"
| "awaits_left AwaitStatus = 1"
| "awaits_left (Returned st) = 0"
| "awaits_left (Rejected x) = 0"

text \<open>A call that started a sync holds the flag while it is syncing and has given it
  back afterwards.\<close>

definition in_order :: "task \<Rightarrow> sync_service \<Rightarrow> bool" where
  "in_order t s =
     (if syncing t then syncInProgress s else t \<noteq> AwaitStatus \<and> \<not> syncInProgress s)"

text \<open>The flag is set exactly while one call is syncing, and no two calls are.\<close>

definition one_sync :: "system \<Rightarrow> bool" where
  "one_sync \<sigma> =
     (length (filter syncing (tasks \<sigma>)) = (if syncInProgress (service \<sigma>) then 1 else 0))"

text \<open>The pattern of a scheme, and the index of the signature in its match array.\<close>

definition pattern_of :: "pattern_name \<Rightarrow> regex" where
  "pattern_of k =
     (case k of standard_hex \<Rightarrow> sig_pattern | base64_signature \<Rightarrow> signature_pattern
      | web3_signature \<Rightarrow> web3sig_pattern | did_signature \<Rightarrow> did_pattern
      | ethereum_signature \<Rightarrow> eth_pattern)"

definition sig_group :: "pattern_name \<Rightarrow> nat" where
  "sig_group k = (if k = did_signature then 2 else 1)"

text \<open>The order in which each of the two parsers tries the schemes, and the schemes
  tried before a given one.\<close>

definition sms_order :: "pattern_name list" where
  "sms_order = map name signaturePatterns"

definition service_order :: "pattern_name list" where
  "service_order =
     [standard_hex, base64_signature, web3_signature, ethereum_signature, did_signature]"

definition tried_before :: "pattern_name list \<Rightarrow> pattern_name \<Rightarrow> pattern_name list" where
  "tried_before ord k = takeWhile (\<lambda>k'. k' \<noteq> k) ord"

text \<open>The label a tag of a scheme starts with.\<close>

definition label_of :: "pattern_name \<Rightarrow> string" where
  "label_of k =
     (case k of standard_hex \<Rightarrow> ''[SIG:'' | base64_signature \<Rightarrow> ''[SIGNATURE:''
      | web3_signature \<Rightarrow> ''[WEB3SIG:0x'' | did_signature \<Rightarrow> ''[DID:''
      | ethereum_signature \<Rightarrow> ''[ETH:0x'')"

text \<open>The rows a successful save stores.\<close>

definition saved_row :: "env \<Rightarrow> save_params \<Rightarrow> VerifiedMessage" where
  "saved_row e p =
     \<lparr>organization_id = p_organizationId p, message_content = p_messageContent p,
      msg_signature = p_signature p, sender_address = p_senderAddress p,
      msg_status = verified, verification_details = p_verificationDetails p,
      message_hash = None, verified_at = Some (now_iso e),
      vm_id = new_message_id e, created_at = now_iso e\<rparr>"

definition saved_attempt :: "env \<Rightarrow> save_params \<Rightarrow> string \<Rightarrow> MessageVerificationAttempt" where
  "saved_attempt e p u =
     \<lparr>att_id = new_attempt_id e, message_id = new_message_id e, attempted_by = u,
      verification_method = p_verificationMethod p, att_success = True,
      att_organization_id = p_organizationId p\<rparr>"

section \<open>Characters and classes\<close>

lemma code_inj: "code c = code d \<longleftrightarrow> c = d"
  by (simp add: code_def)

lemma code_lt: "code c < 256"
  by (simp add: code_def)

lemma code_char_of: "code (char_of n) = n mod 256"
  by (simp add: code_def)

lemma char_of_is: "char_of (n::nat) = c \<longleftrightarrow> n mod 256 = code c"
  using code_inj[of "char_of n" c] by (simp add: code_char_of)

lemma code_canonicalize:
  "code (canonicalize c) = (if 97 \<le> code c \<and> code c \<le> 122 then code c - 32 else code c)"
  using code_lt[of c] by (simp add: canonicalize_def Let_def code_char_of)

lemma canonicalize_eq_other:
  assumes "code a < 65 \<or> (90 < code a \<and> code a < 97) \<or> 122 < code a"
  shows "canonicalize c = canonicalize a \<longleftrightarrow> c = a"
proof -
  have "canonicalize c = canonicalize a \<longleftrightarrow> code (canonicalize c) = code (canonicalize a)"
    by (simp add: code_inj)
  also have "\<dots> \<longleftrightarrow> code c = code a"
    using assms by (auto simp: code_canonicalize)
  finally show ?thesis by (simp add: code_inj)
qed

lemma canonicalize_rbracket [simp]: "canonicalize c = canonicalize CHR '']'' \<longleftrightarrow> c = CHR '']''"
  by (rule canonicalize_eq_other) (simp add: code_def)

lemma code_canon_fold: "code (canonicalize c) = fold_code (code c)"
  by (simp add: code_canonicalize fold_code_def)

lemma set_class_members:
  "set (class_members rs) = {char_of n |n lo hi. (lo, hi) \<in> set rs \<and> code lo \<le> n \<and> n \<le> code hi}"
proof -
  have "set (map char_of [code lo ..< Suc (code hi)]) = {char_of n |n. code lo \<le> n \<and> n \<le> code hi}"
    for lo hi :: char
    by (auto simp del: upt_Suc simp: less_Suc_eq_le)
  then show ?thesis
    unfolding class_members_def by (fastforce simp del: upt_Suc)
qed

lemma code_char_of_small: "n \<le> code (hi :: char) \<Longrightarrow> code (char_of n :: char) = n"
  using code_lt[of hi] by (simp add: code_char_of)

lemma class_matches_code:
  "class_matches rs c \<longleftrightarrow>
     (\<exists>(lo, hi) \<in> set rs. \<exists>n. code lo \<le> n \<and> n \<le> code hi \<and> fold_code (code c) = fold_code n)"
  (is "?L \<longleftrightarrow> ?R")
proof
  assume ?L
  then obtain a where a: "a \<in> set (class_members rs)" and e: "canonicalize c = canonicalize a"
    unfolding class_matches_def by auto
  from a obtain n lo hi where n: "a = char_of n" "(lo, hi) \<in> set rs" "code lo \<le> n" "n \<le> code hi"
    unfolding set_class_members by blast
  from e have "fold_code (code c) = fold_code (code a)"
    by (simp add: code_canon_fold[symmetric])
  also have "code a = n" using n(1,4) by (simp add: code_char_of_small)
  finally show ?R using n(2,3,4) by blast
next
  assume ?R
  then obtain lo hi n where n: "(lo, hi) \<in> set rs" "code lo \<le> n" "n \<le> code hi"
    and e: "fold_code (code c) = fold_code n" by blast
  have m: "char_of n \<in> set (class_members rs)"
    unfolding set_class_members using n by blast
  have "code (canonicalize c) = code (canonicalize (char_of n))"
    using e n(3) by (simp add: code_canon_fold code_char_of_small)
  then have "canonicalize c = canonicalize (char_of n)" by (simp add: code_inj)
  with m show ?L unfolding class_matches_def by force
qed

lemma hex_rb: "\<not> class_matches HEX CHR '']''"
  by (auto simp: class_matches_code HEX_def code_def fold_code_def)

lemma b64_rb: "\<not> class_matches BASE64 CHR '']''"
  by (auto simp: class_matches_code BASE64_def code_def fold_code_def)

lemma method_colon: "\<not> class_matches DID_METHOD CHR '':''"
  by (auto simp: class_matches_code DID_METHOD_def code_def fold_code_def)

lemma id_hash: "\<not> class_matches DID_ID CHR ''#''"
  by (auto simp: class_matches_code DID_ID_def code_def fold_code_def)

lemma class_matches_range:
  assumes "(lo, hi) \<in> set rs" "code lo \<le> code a" "code a \<le> code hi"
  shows "class_matches rs a"
  unfolding class_matches_code using assms by blast

lemma hex_a: "class_matches HEX CHR ''a''"
  by (rule class_matches_range[of "CHR ''a''" "CHR ''f''"]) (simp_all add: HEX_def code_def)

section \<open>The matcher on the signature patterns\<close>

lemma run_lits:
  "run (lits s @ r) inp acc os cs =
     (if length s \<le> length inp \<and> map canonicalize (take (length s) inp) = map canonicalize s
      then run r (drop (length s) inp) (acc @ take (length s) inp) os cs else None)"
proof (induction s arbitrary: inp acc)
  case Nil
  then show ?case by (simp add: lits_def)
next
  case (Cons a s)
  show ?case
  proof (cases inp)
    case Nil
    then show ?thesis by (simp add: lits_def)
  next
    case (Cons c cs')
    with Cons.IH[of cs' "acc @ [c]"] show ?thesis
      by (auto simp: lits_def)
  qed
qed

lemma first_some_None: "(\<And>k. k \<in> set ks \<Longrightarrow> f k = None) \<Longrightarrow> first_some f ks = None"
  by (induction ks) auto

lemma class_matches_canon:
  "canonicalize c = canonicalize a \<Longrightarrow> class_matches cls c = class_matches cls a"
  by (simp add: class_matches_def)

lemma run_blocked:
  assumes "starts_with_lit r a" "\<not> class_matches cls a"
    and "k < length (takeWhile (class_matches cls) inp)"
  shows "run r (drop k inp) acc os cs = None"
proof -
  from assms(3) have k: "k < length inp"
    using length_takeWhile_le[of "class_matches cls" inp] by simp
  have "inp ! k = takeWhile (class_matches cls) inp ! k"
    using assms(3) by (simp add: takeWhile_nth)
  then have "class_matches cls (inp ! k)"
    using assms(3) nth_mem set_takeWhileD by metis
  then have ne: "canonicalize (inp ! k) \<noteq> canonicalize a"
    using assms(2) class_matches_canon by blast
  from k have d: "drop k inp = inp ! k # drop (Suc k) inp"
    by (simp add: Cons_nth_drop_Suc)
  from assms(1) show ?thesis
    unfolding starts_with_lit_def using ne d by (auto split: list.splits)
qed

lemma run_Rep_det:
  assumes "starts_with_lit r a" "\<not> class_matches cls a"
  shows "run (Rep cls lo hi # r) inp acc os cs =
     (let w = takeWhile (class_matches cls) inp in
      if lo \<le> length w \<and> (case hi of None \<Rightarrow> True | Some h \<Rightarrow> length w \<le> h)
      then run r (dropWhile (class_matches cls) inp) (acc @ w) os cs else None)"
proof -
  define n where "n = length (takeWhile (class_matches cls) inp)"
  define top where "top = (case hi of None \<Rightarrow> n | Some h \<Rightarrow> min n h)"
  define ok where "ok = (case hi of None \<Rightarrow> True | Some h \<Rightarrow> n \<le> h)"
  define f where "f = (\<lambda>k. run r (drop k inp) (acc @ take k inp) os cs)"
  have low: "f k = None" if "k < n" for k
    using run_blocked[OF assms, of k inp] that by (simp add: f_def n_def)
  have topn: "top \<le> n" by (simp add: top_def split: option.splits)
  have top_ok: "top = n \<longleftrightarrow> ok"
    by (auto simp: top_def ok_def split: option.splits)
  have lhs: "run (Rep cls lo hi # r) inp acc os cs = first_some f (rev [lo ..< Suc top])"
    by (simp only: run.simps rep_counts_def f_def n_def top_def Let_def)
  have fn: "f n = run r (dropWhile (class_matches cls) inp) (acc @ takeWhile (class_matches cls) inp) os cs"
    by (simp add: f_def n_def takeWhile_eq_take[symmetric] dropWhile_eq_drop[symmetric])
  have rhs: "(let w = takeWhile (class_matches cls) inp in
      if lo \<le> length w \<and> (case hi of None \<Rightarrow> True | Some h \<Rightarrow> length w \<le> h)
      then run r (dropWhile (class_matches cls) inp) (acc @ w) os cs else None)
      = (if lo \<le> n \<and> ok then f n else None)"
    unfolding ok_def n_def Let_def using fn[unfolded n_def] by simp
  have "first_some f (rev [lo ..< Suc top]) = (if lo \<le> n \<and> ok then f n else None)"
  proof (cases "lo \<le> top")
    case False
    then have v: "first_some f (rev [lo ..< Suc top]) = None" by simp
    from False top_ok have c: "\<not> (lo \<le> n \<and> ok)" by auto
    show ?thesis unfolding v using c by auto
  next
    case True
    then have "rev [lo ..< Suc top] = top # rev [lo ..< top]" by simp
    moreover have "first_some f (rev [lo ..< top]) = None"
      using low topn by (intro first_some_None) auto
    ultimately have fs: "first_some f (rev [lo ..< Suc top]) = f top"
      by (simp split: option.splits)
    show ?thesis
    proof (cases "top = n")
      case True
      with \<open>lo \<le> top\<close> top_ok have c: "lo \<le> n \<and> ok" by simp
      show ?thesis unfolding fs using c True by auto
    next
      case False
      with topn have "top < n" by simp
      then have z: "f top = None" by (rule low)
      from False top_ok have c: "\<not> ok" by simp
      show ?thesis unfolding fs z using c by auto
    qed
  qed
  with lhs rhs show ?thesis by simp
qed

lemma same_ci_length: "same_ci s t \<Longrightarrow> length s = length t"
  unfolding same_ci_def by (metis length_map)

lemma takeWhile_run:
  "list_all P w \<Longrightarrow> \<not> P c \<Longrightarrow> takeWhile P (w @ c # post) = w"
  by (induction w) auto

lemma dropWhile_run:
  "list_all P w \<Longrightarrow> \<not> P c \<Longrightarrow> dropWhile P (w @ c # post) = c # post"
  by (induction w) auto

lemma bracket_complete:
  assumes nb: "\<not> class_matches cls CHR '']''"
    and tag: "bracket_tag label (class_matches cls) lo hi tag payload"
  shows "match_here (bracket_pattern label cls lo hi) (tag @ post) = Some [tag, payload]"
proof -
  from tag obtain lit where t: "tag = lit @ payload @ '']''" and ci: "same_ci lit label"
    and all: "list_all (class_matches cls) payload" and lo: "lo \<le> length payload"
    and hi: "(case hi of None \<Rightarrow> True | Some h \<Rightarrow> length payload \<le> h)"
    unfolding bracket_tag_def by blast
  have len: "length lit = length label" using ci by (rule same_ci_length)
  have sw: "starts_with_lit [GroupClose, Lit CHR '']''] CHR '']''"
    by (simp add: starts_with_lit_def)
  have ci': "map canonicalize lit = map canonicalize label" using ci by (simp add: same_ci_def)
  have "run (bracket_pattern label cls lo hi) (tag @ post) [] [] [] = Some (tag, [payload])"
    unfolding bracket_pattern_def t
    using len ci' lo hi all nb
    by (simp add: run_lits run_Rep_det[OF sw nb] takeWhile_run dropWhile_run Let_def
          del: run.simps(3))
  then show ?thesis by (simp add: match_here_def)
qed

lemma bracket_sound:
  assumes nb: "\<not> class_matches cls CHR '']''"
    and m: "match_here (bracket_pattern label cls lo hi) s = Some m"
  shows "\<exists>tag payload post. s = tag @ post \<and> bracket_tag label (class_matches cls) lo hi tag payload"
proof -
  have sw: "starts_with_lit [GroupClose, Lit CHR '']''] CHR '']''"
    by (simp add: starts_with_lit_def)
  define lit where "lit = take (length label) s"
  define rest where "rest = drop (length label) s"
  define w where "w = takeWhile (class_matches cls) rest"
  from m obtain res where r: "run (bracket_pattern label cls lo hi) s [] [] [] = Some res"
    by (auto simp: match_here_def split: option.splits)
  from r have c1: "length label \<le> length s" and c2: "same_ci lit label"
    and r2: "run [GroupOpen, Rep cls lo hi, GroupClose, Lit CHR '']''] rest lit [] [] = Some res"
    unfolding bracket_pattern_def lit_def rest_def same_ci_def
    by (auto simp: run_lits split: if_splits)
  from r2 have c3: "lo \<le> length w" and c4: "(case hi of None \<Rightarrow> True | Some h \<Rightarrow> length w \<le> h)"
    and r3: "run [GroupClose, Lit CHR '']''] (dropWhile (class_matches cls) rest) (lit @ w) [length lit] [] = Some res"
    unfolding w_def
    by (auto simp: run_Rep_det[OF sw nb] Let_def simp del: run.simps(3) split: if_splits)
  from r3 obtain post where d: "dropWhile (class_matches cls) rest = CHR '']'' # post"
    by (auto split: list.splits if_splits)
  have "s = lit @ rest" by (simp add: lit_def rest_def)
  also have "rest = w @ CHR '']'' # post"
    using takeWhile_dropWhile_id[of "class_matches cls" rest] d by (simp add: w_def)
  finally have s: "s = (lit @ w @ '']'') @ post" by simp
  have "list_all (class_matches cls) w"
    unfolding w_def list_all_iff using set_takeWhileD by metis
  with c2 c3 c4 have "bracket_tag label (class_matches cls) lo hi (lit @ w @ '']'') w"
    unfolding bracket_tag_def by blast
  with s show ?thesis by blast
qed

lemma canonicalize_colon [simp]: "canonicalize c = canonicalize CHR '':'' \<longleftrightarrow> c = CHR '':''"
  by (rule canonicalize_eq_other) (simp add: code_def)

lemma canonicalize_hash [simp]: "canonicalize c = canonicalize CHR ''#'' \<longleftrightarrow> c = CHR ''#''"
  by (rule canonicalize_eq_other) (simp add: code_def)

lemma sw_close: "starts_with_lit [GroupClose, Lit CHR '']''] CHR '']''"
  by (simp add: starts_with_lit_def)

lemma sw_colon: "starts_with_lit (Lit CHR '':'' # r) CHR '':''"
  by (simp add: starts_with_lit_def)

lemma sw_hash: "starts_with_lit (GroupClose # lits ''#SIG:'' @ r) CHR ''#''"
  by (simp add: starts_with_lit_def lits_def)

lemmas rep_hex = run_Rep_det[OF sw_close hex_rb]
lemmas rep_method = run_Rep_det[OF sw_colon method_colon]
lemmas rep_id = run_Rep_det[OF sw_hash id_hash]

lemma did_complete:
  assumes "did_tag tag did payload"
  shows "match_here did_pattern (tag @ post) = Some [tag, did, payload]"
proof -
  from assms obtain l1 l2 l3 mth ident where
    t: "tag = l1 @ did @ l3 @ payload @ '']''" and d: "did = l2 @ mth @ '':'' @ ident"
    and c1: "same_ci l1 ''[DID:''" and c2: "same_ci l2 ''did:''" and c3: "same_ci l3 ''#SIG:''"
    and m: "mth \<noteq> []" "list_all (class_matches DID_METHOD) mth"
    and i: "ident \<noteq> []" "list_all (class_matches DID_ID) ident"
    and p: "list_all (class_matches HEX) payload" "64 \<le> length payload"
    unfolding did_tag_def by blast
  have len: "length l1 = 5" "length l2 = 4" "length l3 = 5"
    using same_ci_length[OF c1] same_ci_length[OF c2] same_ci_length[OF c3] by simp_all
  have l3: "l3 = hd l3 # tl l3" "hd l3 = CHR ''#''"
    using c3 len(3) by (cases l3; simp add: same_ci_def)+
  have tw2: "takeWhile (class_matches DID_ID) (ident @ l3 @ rest) = ident"
    "dropWhile (class_matches DID_ID) (ident @ l3 @ rest) = l3 @ rest" for rest
    using takeWhile_run[OF i(2) id_hash, of "tl l3 @ rest"] dropWhile_run[OF i(2) id_hash, of "tl l3 @ rest"] l3
    by (metis append_Cons)+
  have "run did_pattern (tag @ post) [] [] [] = Some (tag, [did, payload])"
    unfolding did_pattern_def t d
    using len c1 c2 c3 m i p
    by (simp add: run_lits rep_hex rep_method rep_id takeWhile_run dropWhile_run tw2 Let_def
        same_ci_def hex_rb method_colon id_hash Suc_le_eq drop_Cons'
        del: run.simps(3))
  then show ?thesis by (simp add: match_here_def)
qed

lemma run_lits_SomeD:
  assumes "run (lits s @ r) inp acc os cs = Some res"
  shows "same_ci (take (length s) inp) s"
    and "run r (drop (length s) inp) (acc @ take (length s) inp) os cs = Some res"
    and "inp = take (length s) inp @ drop (length s) inp"
  using assms by (auto simp: run_lits same_ci_def split: if_splits)

lemma run_Rep_SomeD:
  assumes "starts_with_lit r a" "\<not> class_matches cls a"
    and "run (Rep cls lo hi # r) inp acc os cs = Some res"
  shows "lo \<le> length (takeWhile (class_matches cls) inp)"
    and "case hi of None \<Rightarrow> True | Some h \<Rightarrow> length (takeWhile (class_matches cls) inp) \<le> h"
    and "run r (dropWhile (class_matches cls) inp) (acc @ takeWhile (class_matches cls) inp) os cs = Some res"
  using assms(3) unfolding run_Rep_det[OF assms(1,2)] Let_def
  by (auto split: if_splits)

lemma run_Lit_SomeD:
  assumes "run (Lit a # r) inp acc os cs = Some res"
  shows "\<exists>c rest. inp = c # rest \<and> canonicalize c = canonicalize a \<and> run r rest (acc @ [c]) os cs = Some res"
  using assms by (auto split: list.splits if_splits)

lemma list_all_takeWhile: "list_all P (takeWhile P xs)"
  unfolding list_all_iff using set_takeWhileD by metis

lemma did_sound:
  assumes "match_here did_pattern s = Some m"
  shows "\<exists>tag did payload post. s = tag @ post \<and> did_tag tag did payload"
proof -
  from assms obtain res where r0: "run did_pattern s [] [] [] = Some res"
    by (auto simp: match_here_def split: option.splits)
  define l1 where "l1 = take (length ''[DID:'') s"
  define s1 where "s1 = drop (length ''[DID:'') s"
  define l2 where "l2 = take (length ''did:'') s1"
  define s2 where "s2 = drop (length ''did:'') s1"
  define mth where "mth = takeWhile (class_matches DID_METHOD) s2"
  define s3 where "s3 = dropWhile (class_matches DID_METHOD) s2"
  have r0': "run (lits ''[DID:'' @ GroupOpen # (lits ''did:'' @
       Rep DID_METHOD 1 None # Lit CHR '':'' # Rep DID_ID 1 None # GroupClose #
       (lits ''#SIG:'' @ [GroupOpen, Rep HEX 64 None, GroupClose, Lit CHR '']'']))) s [] [] [] = Some res"
    using r0 by (simp add: did_pattern_def)
  note a = run_lits_SomeD[OF r0', folded l1_def s1_def]
  from a(2) have r1: "run (lits ''did:'' @
       Rep DID_METHOD 1 None # Lit CHR '':'' # Rep DID_ID 1 None # GroupClose #
       (lits ''#SIG:'' @ [GroupOpen, Rep HEX 64 None, GroupClose, Lit CHR '']''])) s1 l1 [length l1] [] = Some res"
    by simp
  note b = run_lits_SomeD[OF r1, folded l2_def s2_def]
  note c = run_Rep_SomeD[OF sw_colon method_colon b(2), folded mth_def s3_def]
  from run_Lit_SomeD[OF c(3)] obtain s4 where s3: "s3 = CHR '':'' # s4"
    and r3: "run (Rep DID_ID 1 None # GroupClose #
       (lits ''#SIG:'' @ [GroupOpen, Rep HEX 64 None, GroupClose, Lit CHR '']''])) s4
         (l1 @ l2 @ mth @ '':'') [length l1] [] = Some res"
    by auto
  define ident where "ident = takeWhile (class_matches DID_ID) s4"
  define s5 where "s5 = dropWhile (class_matches DID_ID) s4"
  note d = run_Rep_SomeD[OF sw_hash id_hash r3, folded ident_def s5_def]
  define did where "did = l2 @ mth @ '':'' @ ident"
  define l3 where "l3 = take (length ''#SIG:'') s5"
  define s6 where "s6 = drop (length ''#SIG:'') s5"
  from d(3) have r5: "run (lits ''#SIG:'' @ [GroupOpen, Rep HEX 64 None, GroupClose, Lit CHR '']''])
       s5 (l1 @ did) [] [did] = Some res"
    by (simp add: did_def)
  note e = run_lits_SomeD[OF r5, folded l3_def s6_def]
  define payload where "payload = takeWhile (class_matches HEX) s6"
  define s7 where "s7 = dropWhile (class_matches HEX) s6"
  from e(2) have r6: "run (Rep HEX 64 None # [GroupClose, Lit CHR '']'']) s6 (l1 @ did @ l3)
      [length (l1 @ did @ l3)] [did] = Some res"
    by simp
  note f = run_Rep_SomeD[OF sw_close hex_rb r6, folded payload_def s7_def]
  from f(3) obtain post where s7: "s7 = CHR '']'' # post"
    by (auto split: list.splits if_splits)
  have e1: "s = l1 @ s1" using a(3) .
  have e2: "s1 = l2 @ s2" using b(3) .
  have e3: "s2 = mth @ s3" by (simp add: mth_def s3_def)
  have e4: "s4 = ident @ s5" by (simp add: ident_def s5_def)
  have e5: "s5 = l3 @ s6" using e(3) .
  have e6: "s6 = payload @ s7" by (simp add: payload_def s7_def)
  have s: "s = (l1 @ did @ l3 @ payload @ '']'') @ post"
    unfolding did_def using e1 e2 e3 e4 e5 e6 s3 s7 by simp
  have "did_tag (l1 @ did @ l3 @ payload @ '']'') did payload"
    unfolding did_tag_def
    apply (rule exI[of _ l1], rule exI[of _ l2], rule exI[of _ l3])
    apply (rule exI[of _ mth], rule exI[of _ ident])
    using a(1) b(1) e(1) c(1) d(1) f(1)
    by (auto simp: did_def mth_def ident_def payload_def list_all_takeWhile)
  with s show ?thesis by blast
qed

section \<open>The remote verifier without a configured backend\<close>

lemma length_toLowerCase [simp]: "length (toLowerCase s) = length s"
  by (simp add: toLowerCase_def)

lemma verifyMessage_mock:
  assumes "unconfigured e"
  shows "verifyMessage e w c sg a =
    (\<lparr>data = Some
            \<lparr>is_valid = (64 \<le> length sg \<and> 0 < length c),
             row_organization_id = Some ''mock-org-1'',
             row_organization_name = Some ''Mock Organization'',
             row_verification_details =
               [(''timestamp'', JNumber (now_ms e)),
                (''method'', JString ''mock''),
                (''signature_format'', JString ''hex''),
                (''message_hash'', JString (take 8 c))]\<rparr>,
          reply_error = None\<rparr>, w)"
  using assms by (simp add: verifyMessage_def)

lemma verifyMessageSignature_mock:
  assumes "unconfigured e"
  shows "fst (verifyMessageSignature e w content sg addr method) =
     \<lparr>isValid = (64 \<le> length (strip_0x sg) \<and> trim content \<noteq> []),
      success = Some True,
      organizationId = Some ''mock-org-1'',
      organizationName = Some ''Mock Organization'',
      verificationDetails = Some
               [(''timestamp'', JNumber (now_ms e)),
                (''method'', JString ''mock''),
                (''signature_format'', JString ''hex''),
                (''message_hash'', JString (take 8 (trim content)))],
      message = Some (if 64 \<le> length (strip_0x sg) \<and> trim content \<noteq> []
                      then ''Message verified from Mock Organization''
                      else ''Message verification failed''),
      error = None\<rparr>"
  by (simp add: verifyMessageSignature_def verifyMessage_mock[OF assms] Let_def interpolate_def)

lemma unconfigured_mock_env: "unconfigured mock_env"
  by (simp add: unconfigured_def mock_env_def)

lemma trim_one_space: "trim '' '' = []"
  by (simp add: trim_def is_space_def code_def)

lemma strip_0x_replicate_a: "strip_0x (replicate 64 CHR ''a'') = replicate 64 CHR ''a''"
  by (simp add: strip_0x_def startsWith_def)

text \<open>
  Claim C3, as amended. Without a configured backend, \<^verbatim>\<open>verifyMessageSignature\<close>
  strips one leading \<open>0x\<close> from the signature and lower-cases it, trims the content, and
  reports \<open>isValid\<close> exactly when the normalized signature has at least 64 characters
  and the trimmed content is not empty; the organization is the placeholder
  \<open>mock-org-1\<close> / \<open>Mock Organization\<close>, and the \<open>method\<close> field of the details is
  \<open>mock\<close>.
\<close>

theorem degraded_mode_verdict:
  assumes "unconfigured e"
  shows "(let r = fst (verifyMessageSignature e w content sg addr method) in
          (isValid r \<longleftrightarrow>
             64 \<le> length (toLowerCase (strip_0x sg)) \<and> 0 < length (trim content)) \<and>
          organizationId r = Some ''mock-org-1'' \<and>
          organizationName r = Some ''Mock Organization'' \<and>
          (\<exists>d. verificationDetails r = Some d \<and> map_of d ''method'' = Some (JString ''mock'')))"
  by (simp add: verifyMessageSignature_mock[OF assms] Let_def)

text \<open>The amended claim C3 at a signature of 64 characters and the content \<open>hello\<close>.\<close>

theorem degraded_mode_verdict_witness:
  "unconfigured mock_env \<and>
   (let r = fst (verifyMessageSignature mock_env quiet_world ''hello''
                   (replicate 64 CHR ''a'') fallback_address ''manual'') in
          (isValid r \<longleftrightarrow>
             64 \<le> length (toLowerCase (strip_0x (replicate 64 CHR ''a''))) \<and>
             0 < length (trim ''hello'')) \<and>
          organizationId r = Some ''mock-org-1'' \<and>
          organizationName r = Some ''Mock Organization'' \<and>
          (\<exists>d. verificationDetails r = Some d \<and> map_of d ''method'' = Some (JString ''mock'')))"
  using degraded_mode_verdict[OF unconfigured_mock_env, of quiet_world "''hello''"
          "replicate 64 CHR ''a''" fallback_address "''manual''"]
        unconfigured_mock_env
  by simp

text \<open>
  Claim C3 as stated fails on a content of white space only: the content has length 1
  and the signature 64 characters, yet the verdict is negative, because the content is
  trimmed before its length is tested.
\<close>

theorem untrimmed_content_counterexample:
  "\<not> (isValid (fst (verifyMessageSignature mock_env quiet_world '' ''
                      (replicate 64 CHR ''a'') fallback_address ''manual''))
      \<longleftrightarrow> 64 \<le> length (toLowerCase (strip_0x (replicate 64 CHR ''a''))) \<and> 0 < length '' '')"
  by (simp add: verifyMessageSignature_mock[OF unconfigured_mock_env] trim_one_space
        strip_0x_replicate_a)

section \<open>The cache sync\<close>

lemma finished_iff: "finished t \<longleftrightarrow> awaits_left t = 0"
  by (cases t) auto

lemma resume_awaits_left:
  "\<not> finished t \<Longrightarrow> awaits_left (fst (resume out now t s)) < awaits_left t"
  by (cases t; cases out) (auto simp: abort_def)

lemma resume_in_order:
  "in_order t s \<Longrightarrow> in_order (fst (resume out now t s)) (snd (resume out now t s))"
  by (cases t; cases out) (auto simp: abort_def in_order_def)

lemma resume_fetch_cycles: "fetch_cycles (snd (resume out now t s)) = fetch_cycles s"
  by (cases t; cases out) (auto simp: abort_def)

lemma settle_in_order:
  "in_order t s \<Longrightarrow> in_order (fst (settle outs (t, s))) (snd (settle outs (t, s)))"
proof (induction outs arbitrary: t s)
  case Nil
  then show ?case by simp
next
  case (Cons a outs)
  obtain out now where a: "a = (out, now)" by (cases a)
  show ?case
  proof (cases "finished t")
    case True
    with Cons.prems a show ?thesis by simp
  next
    case False
    have "in_order (fst (resume out now t s)) (snd (resume out now t s))"
      using Cons.prems by (rule resume_in_order)
    from Cons.IH[OF this] False a show ?thesis by simp
  qed
qed

lemma settle_fetch_cycles: "fetch_cycles (snd (settle outs (t, s))) = fetch_cycles s"
proof (induction outs arbitrary: t s)
  case Nil
  then show ?case by simp
next
  case (Cons a outs)
  obtain out now where a: "a = (out, now)" by (cases a)
  show ?case
    using Cons.IH[of "fst (resume out now t s)" "snd (resume out now t s)"] a
    by (simp add: resume_fetch_cycles)
qed

lemma settle_finishes:
  "awaits_left t \<le> length outs \<Longrightarrow> finished (fst (settle outs (t, s)))"
proof (induction outs arbitrary: t s)
  case Nil
  then show ?case by (simp add: finished_iff)
next
  case (Cons a outs)
  obtain out now where a: "a = (out, now)" by (cases a)
  show ?case
  proof (cases "finished t")
    case True
    with a show ?thesis by simp
  next
    case False
    have "awaits_left (fst (resume out now t s)) \<le> length outs"
      using resume_awaits_left[OF False, of out now s] Cons.prems by simp
    from Cons.IH[OF this, of "snd (resume out now t s)"] False a show ?thesis by simp
  qed
qed

text \<open>
  Claim C10. A call of \<^verbatim>\<open>syncData\<close> made while the flag is not set starts a sync: it
  sets \<open>syncInProgress\<close>, issues the query of the organizations (one more fetch cycle,
  and only one, however the call goes on) and holds the flag for as long as it is between
  that query and its \<^verbatim>\<open>finally\<close> block. A failure of the query of the organizations
  gives the flag back at once. The call ends once at most six awaited operations have
  settled, whichever of them fail; when it has ended, by returning or by rejecting,
  \<open>syncInProgress\<close> is false again, and the next call starts a new fetch cycle.
\<close>

theorem syncData_resets_flag:
  assumes "\<not> syncInProgress s"
  shows "syncData [] s =
           (AwaitFetchOrganizations, s\<lparr>syncInProgress := True, fetch_cycles := fetch_cycles s + 1\<rparr>) \<and>
         fetch_cycles (snd (syncData outs s)) = fetch_cycles s + 1 \<and>
         (syncing (fst (syncData outs s)) \<longrightarrow> syncInProgress (snd (syncData outs s))) \<and>
         syncData [(Fails x, now)] s =
           (AwaitLastSync [x], s\<lparr>syncInProgress := False, fetch_cycles := fetch_cycles s + 1\<rparr>) \<and>
         (6 \<le> length outs \<longrightarrow> finished (fst (syncData outs s))) \<and>
         (finished (fst (syncData outs s)) \<longrightarrow>
            \<not> syncInProgress (snd (syncData outs s)) \<and>
            fst (invoke (snd (syncData outs s))) = AwaitFetchOrganizations \<and>
            fetch_cycles (snd (invoke (snd (syncData outs s)))) =
              fetch_cycles (snd (syncData outs s)) + 1)"
proof -
  have inv: "invoke s = (AwaitFetchOrganizations, s\<lparr>syncInProgress := True, fetch_cycles := fetch_cycles s + 1\<rparr>)"
    using assms by (simp add: invoke_def)
  let ?s1 = "s\<lparr>syncInProgress := True, fetch_cycles := fetch_cycles s + 1\<rparr>"
  have sd: "syncData outs s = settle outs (AwaitFetchOrganizations, ?s1)"
    by (simp add: syncData_def inv)
  have io: "in_order AwaitFetchOrganizations ?s1" by (simp add: in_order_def)
  note fin = settle_in_order[OF io, of outs, folded sd]
  have start: "syncData [] s = (AwaitFetchOrganizations, ?s1)"
    by (simp add: syncData_def inv)
  have cyc: "fetch_cycles (snd (syncData outs s)) = fetch_cycles s + 1"
    unfolding sd by (simp add: settle_fetch_cycles)
  have held: "syncing (fst (syncData outs s)) \<longrightarrow> syncInProgress (snd (syncData outs s))"
    using fin by (simp add: in_order_def split: if_splits)
  have fails: "syncData [(Fails x, now)] s =
           (AwaitLastSync [x], s\<lparr>syncInProgress := False, fetch_cycles := fetch_cycles s + 1\<rparr>)"
    by (simp add: syncData_def inv abort_def)
  have a: "6 \<le> length outs \<longrightarrow> finished (fst (syncData outs s))"
    unfolding sd by (auto intro: settle_finishes)
  have b: "\<not> syncInProgress (snd (syncData outs s))" if "finished (fst (syncData outs s))"
    using fin that by (cases "fst (syncData outs s)") (auto simp: in_order_def)
  have c: "finished (fst (syncData outs s)) \<longrightarrow>
            \<not> syncInProgress (snd (syncData outs s)) \<and>
            fst (invoke (snd (syncData outs s))) = AwaitFetchOrganizations \<and>
            fetch_cycles (snd (invoke (snd (syncData outs s)))) =
              fetch_cycles (snd (syncData outs s)) + 1"
    using b by (auto simp: invoke_def)
  from start cyc held fails a c show ?thesis by blast
qed

text \<open>Claim C10 on a sync whose query of the organizations fails: the call has started
  the one fetch cycle of the service, has ended, and has given the flag back.\<close>

theorem syncData_resets_flag_witness:
  "\<not> syncInProgress idle_service \<and> 6 \<le> length failing_run \<and>
   syncData [] idle_service =
     (AwaitFetchOrganizations,
      idle_service\<lparr>syncInProgress := True, fetch_cycles := fetch_cycles idle_service + 1\<rparr>) \<and>
   fetch_cycles (snd (syncData failing_run idle_service)) = 1 \<and>
   syncData [(Fails ''network'', ''t1'')] idle_service =
     (AwaitLastSync [''network''],
      idle_service\<lparr>syncInProgress := False, fetch_cycles := fetch_cycles idle_service + 1\<rparr>) \<and>
   finished (fst (syncData failing_run idle_service)) \<and>
   \<not> syncInProgress (snd (syncData failing_run idle_service)) \<and>
   fst (invoke (snd (syncData failing_run idle_service))) = AwaitFetchOrganizations \<and>
   fetch_cycles (snd (invoke (snd (syncData failing_run idle_service)))) =
     fetch_cycles (snd (syncData failing_run idle_service)) + 1"
proof -
  have idle: "\<not> syncInProgress idle_service" by (simp add: idle_service_def)
  have len: "6 \<le> length failing_run" by (simp add: failing_run_def)
  have zero: "fetch_cycles idle_service + 1 = 1" by (simp add: idle_service_def)
  from syncData_resets_flag[OF idle, of failing_run "''network''" "''t1''"] idle len
  show ?thesis unfolding zero by blast
qed

lemma length_filter_update:
  "i < length xs \<Longrightarrow>
   length (filter P (xs[i := y])) + (if P (xs ! i) then 1 else 0) =
   length (filter P xs) + (if P y then 1 else 0)"
proof (induction xs arbitrary: i)
  case Nil
  then show ?case by simp
next
  case (Cons x xs)
  then show ?case by (cases i) auto
qed

lemma resume_syncing:
  assumes "syncing t"
  shows "(syncing (fst (resume out now t s)) \<and>
            syncInProgress (snd (resume out now t s)) = syncInProgress s) \<or>
         (\<not> syncing (fst (resume out now t s)) \<and> \<not> syncInProgress (snd (resume out now t s)))"
  using assms by (cases t; cases out) (auto simp: abort_def)

lemma resume_not_syncing:
  assumes "\<not> syncing t"
  shows "\<not> syncing (fst (resume out now t s)) \<and> snd (resume out now t s) = s"
  using assms by (cases t; cases out) (auto simp: abort_def)

lemma one_sync_calls: "one_sync \<sigma> \<Longrightarrow> one_sync (calls \<sigma>)"
  by (auto simp: one_sync_def calls_def invoke_def split: if_splits)

lemma one_sync_settling:
  assumes "settling \<sigma> \<sigma>'" "one_sync \<sigma>"
  shows "one_sync \<sigma>'"
  using assms
proof (induction rule: settling.induct)
  case (settles i \<sigma> out now t' s')
  let ?t = "tasks \<sigma> ! i"
  have t': "t' = fst (resume out now ?t (service \<sigma>))" and s': "s' = snd (resume out now ?t (service \<sigma>))"
    using settles(3) by simp_all
  note upd = length_filter_update[OF settles(1), of syncing t']
  show ?case
  proof (cases "syncing ?t")
    case True
    then have "syncing ?t \<and> ?t \<in> set (tasks \<sigma>)" using settles(1) by simp
    then have "filter syncing (tasks \<sigma>) \<noteq> []" by (auto simp: filter_empty_conv)
    then have flag: "syncInProgress (service \<sigma>)" and one: "length (filter syncing (tasks \<sigma>)) = 1"
      using settles(4) by (auto simp: one_sync_def split: if_splits)
    from resume_syncing[OF True, of out now "service \<sigma>"] show ?thesis
      using upd True one flag by (auto simp: one_sync_def t'[symmetric] s'[symmetric])
  next
    case False
    from resume_not_syncing[OF False, of out now "service \<sigma>"] show ?thesis
      using upd False settles(4) by (auto simp: one_sync_def t'[symmetric] s'[symmetric])
  qed
qed

lemma one_sync_initial: "one_sync (initial st)"
  by (simp add: one_sync_def initial_def)

lemma one_sync_steps: "sys_step\<^sup>*\<^sup>* \<sigma> \<sigma>' \<Longrightarrow> one_sync \<sigma> \<Longrightarrow> one_sync \<sigma>'"
  by (induction rule: rtranclp_induct)
     (auto simp: sys_step_def intro: one_sync_calls one_sync_settling)

lemma reachable_one_sync: "reachable \<sigma> \<Longrightarrow> one_sync \<sigma>"
  unfolding reachable_def using one_sync_steps one_sync_initial by blast

lemma settling_fetch_cycles:
  "settling \<sigma> \<sigma>' \<Longrightarrow> fetch_cycles (service \<sigma>') = fetch_cycles (service \<sigma>)"
  by (induction rule: settling.induct) (metis resume_fetch_cycles snd_conv system.select_convs(1))

lemma settlings_fetch_cycles:
  "settling\<^sup>*\<^sup>* \<sigma> \<sigma>' \<Longrightarrow> fetch_cycles (service \<sigma>') = fetch_cycles (service \<sigma>)"
  by (induction rule: rtranclp_induct) (auto simp: settling_fetch_cycles)

lemma settlings_steps: "settling\<^sup>*\<^sup>* \<sigma> \<sigma>' \<Longrightarrow> sys_step\<^sup>*\<^sup>* \<sigma> \<sigma>'"
  by (induction rule: rtranclp_induct) (auto simp: sys_step_def intro: rtranclp.rtrancl_into_rtrancl)

lemma settlings_one_sync: "settling\<^sup>*\<^sup>* \<sigma> \<sigma>' \<Longrightarrow> one_sync \<sigma> \<Longrightarrow> one_sync \<sigma>'"
  using settlings_steps one_sync_steps by blast

text \<open>
  Claim C8. From any reachable state with no sync running, let a first call start a
  sync and, while it is in flight (\<open>syncInProgress\<close> is set), let a second call be
  made. The second call only waits for the status, which it returns with
  \<open>syncInProgress = true\<close>, and leaves the service as it is; however the operations of
  the two calls settle afterwards, one fetch cycle has been started in all, and at no
  time are two calls syncing.
\<close>

theorem sync_never_overlaps:
  assumes "reachable \<sigma>0" and "\<not> syncInProgress (service \<sigma>0)"
    and "settling\<^sup>*\<^sup>* (calls \<sigma>0) \<sigma>1" and "syncInProgress (service \<sigma>1)"
    and "settling\<^sup>*\<^sup>* (calls \<sigma>1) \<sigma>2"
  shows "calls \<sigma>1 = \<lparr>service = service \<sigma>1, tasks = tasks \<sigma>1 @ [AwaitStatus]\<rparr> \<and>
         fetch_cycles (service \<sigma>2) = fetch_cycles (service \<sigma>0) + 1 \<and>
         length (filter syncing (tasks \<sigma>1)) = 1 \<and>
         length (filter syncing (tasks \<sigma>2)) \<le> 1 \<and>
         (\<forall>v now. resume (Resolves v) now AwaitStatus (service \<sigma>1) =
            (Returned \<lparr>lastSync = read_lastSync (service \<sigma>1), pendingUploads = 0,
                       status_syncInProgress = True, errors = []\<rparr>, service \<sigma>1))"
proof -
  have c1: "calls \<sigma>1 = \<lparr>service = service \<sigma>1, tasks = tasks \<sigma>1 @ [AwaitStatus]\<rparr>"
    using assms(4) by (simp add: calls_def invoke_def)
  have f0: "fetch_cycles (service (calls \<sigma>0)) = fetch_cycles (service \<sigma>0) + 1"
    using assms(2) by (simp add: calls_def invoke_def)
  have f1: "fetch_cycles (service \<sigma>1) = fetch_cycles (service \<sigma>0) + 1"
    using settlings_fetch_cycles[OF assms(3)] f0 by simp
  have f2: "fetch_cycles (service \<sigma>2) = fetch_cycles (service \<sigma>1)"
    using settlings_fetch_cycles[OF assms(5)] by (simp add: c1)
  have o0: "one_sync (calls \<sigma>0)" using reachable_one_sync[OF assms(1)] by (rule one_sync_calls)
  have o1: "one_sync \<sigma>1" using settlings_one_sync[OF assms(3) o0] .
  have o2: "one_sync \<sigma>2" using settlings_one_sync[OF assms(5) one_sync_calls[OF o1]] .
  have n1: "length (filter syncing (tasks \<sigma>1)) = 1" using o1 assms(4) by (simp add: one_sync_def)
  have n2: "length (filter syncing (tasks \<sigma>2)) \<le> 1" using o2 by (simp add: one_sync_def)
  show ?thesis using c1 f1 f2 n1 n2 assms(4) by simp
qed

lemma idle_reachable: "reachable (initial Map.empty)"
  unfolding reachable_def by blast

lemma calls_idle:
  "calls (initial Map.empty) = \<lparr>service = busy_service, tasks = [AwaitFetchOrganizations]\<rparr>"
  by (simp add: calls_def initial_def invoke_def busy_service_def)

lemma first_settling: "settling (calls (initial Map.empty)) first_in_flight"
proof -
  let ?c = "\<lparr>service = busy_service, tasks = [AwaitFetchOrganizations]\<rparr>"
  have "settling ?c \<lparr>service = busy_service, tasks = (tasks ?c)[0 := AwaitStoreOrganizations ''[]'']\<rparr>"
    by (rule settles[where out = "Resolves ''[]''" and now = "''t1''"]) simp_all
  then show ?thesis by (simp add: calls_idle first_in_flight_def)
qed

lemma calls_first:
  "calls first_in_flight =
     \<lparr>service = busy_service, tasks = [AwaitStoreOrganizations ''[]'', AwaitStatus]\<rparr>"
  by (simp add: calls_def first_in_flight_def invoke_def busy_service_def)

lemma second_settling: "settling (calls first_in_flight) second_returned"
proof -
  let ?c = "\<lparr>service = busy_service, tasks = [AwaitStoreOrganizations ''[]'', AwaitStatus]\<rparr>"
  have "settling ?c \<lparr>service = busy_service,
          tasks = (tasks ?c)[1 := Returned \<lparr>lastSync = ''Never'', pendingUploads = 0,
                         status_syncInProgress = True, errors = []\<rparr>]\<rparr>"
    by (rule settles[where out = "Resolves []" and now = "''t2''"])
       (simp_all add: read_lastSync_def busy_service_def)
  then show ?thesis by (simp add: calls_first second_returned_def)
qed

text \<open>Claim C8 on a second call made while the first waits for its write of the
  organizations.\<close>

theorem sync_never_overlaps_witness:
  "reachable (initial Map.empty) \<and> \<not> syncInProgress (service (initial Map.empty)) \<and>
   settling\<^sup>*\<^sup>* (calls (initial Map.empty)) first_in_flight \<and>
   syncInProgress (service first_in_flight) \<and>
   settling\<^sup>*\<^sup>* (calls first_in_flight) second_returned \<and>
   calls first_in_flight =
     \<lparr>service = service first_in_flight, tasks = tasks first_in_flight @ [AwaitStatus]\<rparr> \<and>
   fetch_cycles (service second_returned) = fetch_cycles (service (initial Map.empty)) + 1 \<and>
   length (filter syncing (tasks second_returned)) \<le> 1"
proof -
  have h2: "\<not> syncInProgress (service (initial Map.empty))" by (simp add: initial_def)
  have h3: "settling\<^sup>*\<^sup>* (calls (initial Map.empty)) first_in_flight"
    using first_settling by blast
  have h4: "syncInProgress (service first_in_flight)"
    by (simp add: first_in_flight_def busy_service_def)
  have h5: "settling\<^sup>*\<^sup>* (calls first_in_flight) second_returned"
    using second_settling by blast
  from sync_never_overlaps[OF idle_reachable h2 h3 h4 h5] idle_reachable h2 h3 h4 h5
  show ?thesis by blast
qed

section \<open>Searching a message for the tags\<close>

lemma sig_pattern_bracket: "sig_pattern = bracket_pattern ''[SIG:'' HEX 64 None"
  by (simp add: sig_pattern_def bracket_pattern_def)

lemma signature_pattern_bracket: "signature_pattern = bracket_pattern ''[SIGNATURE:'' BASE64 64 None"
  by (simp add: signature_pattern_def bracket_pattern_def)

lemma web3sig_pattern_bracket: "web3sig_pattern = bracket_pattern ''[WEB3SIG:0x'' HEX 128 None"
  by (simp add: web3sig_pattern_def bracket_pattern_def)

lemma eth_pattern_bracket: "eth_pattern = bracket_pattern ''[ETH:0x'' HEX 130 (Some 130)"
  by (simp add: eth_pattern_def bracket_pattern_def)

lemmas pattern_brackets =
  sig_pattern_bracket signature_pattern_bracket web3sig_pattern_bracket eth_pattern_bracket

lemma match_sound:
  assumes "match_here (pattern_of k) s = Some m"
  shows "\<exists>tag payload post. s = tag @ post \<and> recognized k tag payload"
proof (cases k)
  case standard_hex
  with assms bracket_sound[OF hex_rb, of "''[SIG:''" 64 None s m] show ?thesis
    by (simp add: pattern_of_def recognized_def sig_pattern_bracket)
next
  case base64_signature
  with assms bracket_sound[OF b64_rb, of "''[SIGNATURE:''" 64 None s m] show ?thesis
    by (simp add: pattern_of_def recognized_def signature_pattern_bracket)
next
  case web3_signature
  with assms bracket_sound[OF hex_rb, of "''[WEB3SIG:0x''" 128 None s m] show ?thesis
    by (simp add: pattern_of_def recognized_def web3sig_pattern_bracket)
next
  case did_signature
  with assms did_sound[of s m] show ?thesis
    by (auto simp: pattern_of_def recognized_def)
next
  case ethereum_signature
  with assms bracket_sound[OF hex_rb, of "''[ETH:0x''" 130 "Some 130" s m] show ?thesis
    by (simp add: pattern_of_def recognized_def eth_pattern_bracket)
qed

lemma match_complete:
  assumes "recognized k tag payload"
  shows "\<exists>m. match_here (pattern_of k) (tag @ post) = Some m \<and> grp m 0 = tag \<and>
             grp m (sig_group k) = payload \<and>
             (k = did_signature \<longrightarrow> did_tag tag (grp m 1) payload)"
proof (cases k)
  case standard_hex
  with assms bracket_complete[OF hex_rb, of "''[SIG:''" 64 None tag payload post] show ?thesis
    by (simp add: pattern_of_def recognized_def sig_pattern_bracket grp_def sig_group_def)
next
  case base64_signature
  with assms bracket_complete[OF b64_rb, of "''[SIGNATURE:''" 64 None tag payload post] show ?thesis
    by (simp add: pattern_of_def recognized_def signature_pattern_bracket grp_def sig_group_def)
next
  case web3_signature
  with assms bracket_complete[OF hex_rb, of "''[WEB3SIG:0x''" 128 None tag payload post] show ?thesis
    by (simp add: pattern_of_def recognized_def web3sig_pattern_bracket grp_def sig_group_def)
next
  case did_signature
  with assms obtain did where "did_tag tag did payload" by (auto simp: recognized_def)
  with did_complete[OF this, of post] did_signature show ?thesis
    by (simp add: pattern_of_def grp_def sig_group_def)
next
  case ethereum_signature
  with assms bracket_complete[OF hex_rb, of "''[ETH:0x''" 130 "Some 130" tag payload post] show ?thesis
    by (simp add: pattern_of_def recognized_def eth_pattern_bracket grp_def sig_group_def)
qed

lemma startsWith_split: "startsWith s p \<Longrightarrow> s = p @ drop (length p) s"
  unfolding startsWith_def by (metis append_take_drop_id)

lemma startsWith_append [simp]: "startsWith (p @ s) p"
  by (simp add: startsWith_def)

lemma occurs_at_iff:
  "occurs_at k msg i \<longleftrightarrow> i \<le> length msg \<and> match_here (pattern_of k) (drop i msg) \<noteq> None"
proof
  assume "occurs_at k msg i"
  then obtain tag payload where i: "i \<le> length msg" and r: "recognized k tag payload"
    and s: "startsWith (drop i msg) tag" unfolding occurs_at_def by blast
  from match_complete[OF r, of "drop (length tag) (drop i msg)"] startsWith_split[OF s] i
  show "i \<le> length msg \<and> match_here (pattern_of k) (drop i msg) \<noteq> None" by auto
next
  assume a: "i \<le> length msg \<and> match_here (pattern_of k) (drop i msg) \<noteq> None"
  then obtain m where "match_here (pattern_of k) (drop i msg) = Some m" by auto
  from match_sound[OF this] obtain tag payload post where
    "drop i msg = tag @ post" "recognized k tag payload" by blast
  with a show "occurs_at k msg i" unfolding occurs_at_def by auto
qed

lemma js_match_None_iff:
  "js_match s p = None \<longleftrightarrow> (\<forall>i \<le> length s. match_here p (drop i s) = None)"
proof (induction s)
  case Nil
  then show ?case by simp
next
  case (Cons c cs)
  have "(\<forall>i \<le> length (c # cs). match_here p (drop i (c # cs)) = None) \<longleftrightarrow>
        match_here p (c # cs) = None \<and> (\<forall>i \<le> length cs. match_here p (drop i cs) = None)"
    (is "?A \<longleftrightarrow> ?B")
  proof
    assume a: ?A
    have "match_here p (drop 0 (c # cs)) = None" using a by blast
    moreover have "match_here p (drop i cs) = None" if "i \<le> length cs" for i
      using a[rule_format, of "Suc i"] that by simp
    ultimately show ?B by simp
  next
    assume b: ?B
    show ?A
    proof (intro allI impI)
      fix i assume "i \<le> length (c # cs)"
      then show "match_here p (drop i (c # cs)) = None"
        using b by (cases i) auto
    qed
  qed
  with Cons show ?case by (auto split: option.splits)
qed

lemma js_match_first:
  assumes "\<forall>j < i. match_here p (drop j s) = None" "i \<le> length s"
    and "match_here p (drop i s) = Some m"
  shows "js_match s p = Some m"
  using assms
proof (induction s arbitrary: i)
  case Nil
  then show ?case by simp
next
  case (Cons c cs)
  show ?case
  proof (cases i)
    case 0
    with Cons.prems show ?thesis by simp
  next
    case (Suc n)
    have h: "match_here p (c # cs) = None" using Cons.prems(1)[rule_format, of 0] Suc by simp
    have "\<forall>j < n. match_here p (drop j cs) = None"
    proof (intro allI impI)
      fix j assume "j < n"
      then show "match_here p (drop j cs) = None"
        using Cons.prems(1)[rule_format, of "Suc j"] Suc by simp
    qed
    from Cons.IH[OF this] Cons.prems(2,3) Suc have "js_match cs p = Some m" by simp
    with h show ?thesis by simp
  qed
qed

lemma remove_first_at:
  assumes "tag \<noteq> []" "\<forall>j < length pre. \<not> startsWith (drop j (pre @ tag @ post)) tag"
  shows "remove_first tag (pre @ tag @ post) = pre @ post"
  using assms
proof (induction pre)
  case Nil
  then show ?case by (cases tag) (auto simp: startsWith_def)
next
  case (Cons c pre)
  have h: "\<not> startsWith (c # pre @ tag @ post) tag"
    using Cons.prems(2)[rule_format, of 0] by simp
  have "\<forall>j < length pre. \<not> startsWith (drop j (pre @ tag @ post)) tag"
  proof (intro allI impI)
    fix j assume "j < length pre"
    then show "\<not> startsWith (drop j (pre @ tag @ post)) tag"
      using Cons.prems(2)[rule_format, of "Suc j"] by simp
  qed
  from Cons.IH[OF Cons.prems(1) this] h show ?case by simp
qed

lemma recognized_nonempty: "recognized k tag payload \<Longrightarrow> tag \<noteq> []"
  by (cases k) (auto simp: recognized_def bracket_tag_def did_tag_def)

text \<open>The leftmost tag of a scheme is what the search for the scheme's pattern finds, and
  what the replacement removes.\<close>

lemma leftmost_tag:
  assumes r: "recognized k tag payload"
    and left: "\<forall>j < length pre. \<not> occurs_at k (pre @ tag @ post) j"
  shows "\<exists>m. js_match (pre @ tag @ post) (pattern_of k) = Some m \<and> grp m 0 = tag \<and>
             grp m (sig_group k) = payload \<and>
             (k = did_signature \<longrightarrow> did_tag tag (grp m 1) payload)"
    and "remove_first tag (pre @ tag @ post) = pre @ post"
proof -
  let ?msg = "pre @ tag @ post"
  from match_complete[OF r, of post] obtain m where
    m: "match_here (pattern_of k) (tag @ post) = Some m" "grp m 0 = tag"
       "grp m (sig_group k) = payload" "k = did_signature \<longrightarrow> did_tag tag (grp m 1) payload"
    by blast
  have none: "\<forall>j < length pre. match_here (pattern_of k) (drop j ?msg) = None"
    using left by (auto simp: occurs_at_iff)
  have "js_match ?msg (pattern_of k) = Some m"
    by (rule js_match_first[OF none, of m]) (simp_all add: m)
  with m show "\<exists>m. js_match ?msg (pattern_of k) = Some m \<and> grp m 0 = tag \<and>
             grp m (sig_group k) = payload \<and>
             (k = did_signature \<longrightarrow> did_tag tag (grp m 1) payload)" by blast
  have "\<forall>j < length pre. \<not> startsWith (drop j ?msg) tag"
  proof (intro allI impI)
    fix j assume j: "j < length pre"
    show "\<not> startsWith (drop j ?msg) tag"
    proof
      assume "startsWith (drop j ?msg) tag"
      with r j have "occurs_at k ?msg j" unfolding occurs_at_def by auto
      with left j show False by blast
    qed
  qed
  from remove_first_at[OF recognized_nonempty[OF r] this]
  show "remove_first tag ?msg = pre @ post" .
qed

lemma absent_scheme:
  assumes "\<forall>i. \<not> occurs_at k msg i"
  shows "js_match msg (pattern_of k) = None"
  using assms by (simp add: js_match_None_iff occurs_at_iff)

lemma sms_order_eq:
  "sms_order = [standard_hex, base64_signature, web3_signature, did_signature, ethereum_signature]"
  by (simp add: sms_order_def signaturePatterns_def)

lemma sms_patterns: "map pattern signaturePatterns = map pattern_of sms_order"
  by (simp add: sms_order_def signaturePatterns_def pattern_of_def)

lemma service_patterns: "map re service_signaturePatterns = map pattern_of service_order"
  by (simp add: service_order_def service_signaturePatterns_def pattern_of_def)

lemma includes_sources:
  "map (\<lambda>p. (js_includes (source p) ''DID:'', js_includes (source p) ''WEB3SIG:'',
              js_includes (source p) ''ETH:'')) service_signaturePatterns =
   [(False, False, False), (False, False, False), (False, True, False),
    (False, False, True), (True, False, False)]"
  by (simp add: service_signaturePatterns_def bs_def startsWith_def)

lemma pattern_of_simps:
  "pattern_of standard_hex = sig_pattern" "pattern_of base64_signature = signature_pattern"
  "pattern_of web3_signature = web3sig_pattern" "pattern_of did_signature = did_pattern"
  "pattern_of ethereum_signature = eth_pattern"
  by (simp_all add: pattern_of_def)

lemma sms_priority:
  assumes r: "recognized k tag payload"
    and left: "\<forall>j < length pre. \<not> occurs_at k (pre @ tag @ post) j"
    and prio: "\<forall>k' \<in> set (tried_before sms_order k). \<forall>i. \<not> occurs_at k' (pre @ tag @ post) i"
  shows "try_patterns signaturePatterns (pre @ tag @ post) =
           (Some (scheme_prefix k @ payload), trim (pre @ post), Some tag)"
proof -
  let ?msg = "pre @ tag @ post"
  from leftmost_tag(1)[OF r left] obtain m where
    m: "js_match ?msg (pattern_of k) = Some m" "grp m 0 = tag" "grp m (sig_group k) = payload"
    by blast
  note rm = leftmost_tag(2)[OF r left]
  have none: "js_match ?msg (pattern_of k') = None" if "k' \<in> set (tried_before sms_order k)" for k'
    using prio that by (intro absent_scheme) blast
  show ?thesis
  proof (cases k)
    case standard_hex
    with m rm show ?thesis
      by (simp add: signaturePatterns_def pattern_of_simps sig_group_def scheme_prefix_def)
  next
    case base64_signature
    with none[of standard_hex] m rm show ?thesis
      by (simp add: signaturePatterns_def pattern_of_simps sig_group_def scheme_prefix_def
            tried_before_def sms_order_eq)
  next
    case web3_signature
    with none[of standard_hex] none[of base64_signature] m rm show ?thesis
      by (simp add: signaturePatterns_def pattern_of_simps sig_group_def scheme_prefix_def
            tried_before_def sms_order_eq)
  next
    case did_signature
    with none[of standard_hex] none[of base64_signature] none[of web3_signature] m rm
    show ?thesis
      by (simp add: signaturePatterns_def pattern_of_simps sig_group_def scheme_prefix_def
            tried_before_def sms_order_eq)
  next
    case ethereum_signature
    with none[of standard_hex] none[of base64_signature] none[of web3_signature]
      none[of did_signature] m rm
    show ?thesis
      by (simp add: signaturePatterns_def pattern_of_simps sig_group_def scheme_prefix_def
            tried_before_def sms_order_eq)
  qed
qed

lemma service_loop:
  "service_try_patterns service_signaturePatterns msg =
     (case js_match msg sig_pattern of
        Some m \<Rightarrow> (grp m 1, trim (remove_first (grp m 0) msg), [])
      | None \<Rightarrow>
     (case js_match msg signature_pattern of
        Some m \<Rightarrow> (grp m 1, trim (remove_first (grp m 0) msg), [])
      | None \<Rightarrow>
     (case js_match msg web3sig_pattern of
        Some m \<Rightarrow> (''0x'' @ grp m 1, trim (remove_first (grp m 0) msg), [])
      | None \<Rightarrow>
     (case js_match msg eth_pattern of
        Some m \<Rightarrow> (''0x'' @ grp m 1, trim (remove_first (grp m 0) msg), [])
      | None \<Rightarrow>
     (case js_match msg did_pattern of
        Some m \<Rightarrow> (grp m 2, trim (remove_first (grp m 0) msg), grp m 1)
      | None \<Rightarrow> ([], msg, []))))))"
  by (simp add: service_signaturePatterns_def bs_def startsWith_def Let_def split: option.splits)

lemma service_priority:
  assumes r: "recognized k tag payload"
    and left: "\<forall>j < length pre. \<not> occurs_at k (pre @ tag @ post) j"
    and prio: "\<forall>k' \<in> set (tried_before service_order k). \<forall>i. \<not> occurs_at k' (pre @ tag @ post) i"
  shows "\<exists>hint. service_try_patterns service_signaturePatterns (pre @ tag @ post) =
           (scheme_prefix k @ payload, trim (pre @ post), hint) \<and>
           (if k = did_signature then did_tag tag hint payload else hint = [])"
proof -
  let ?msg = "pre @ tag @ post"
  from leftmost_tag(1)[OF r left] obtain m where
    m: "js_match ?msg (pattern_of k) = Some m" "grp m 0 = tag" "grp m (sig_group k) = payload"
       "k = did_signature \<longrightarrow> did_tag tag (grp m 1) payload"
    by blast
  note rm = leftmost_tag(2)[OF r left]
  have none: "js_match ?msg (pattern_of k') = None" if "k' \<in> set (tried_before service_order k)" for k'
    using prio that by (intro absent_scheme) blast
  show ?thesis
  proof (cases k)
    case standard_hex
    with m rm show ?thesis
      by (simp add: service_loop pattern_of_simps sig_group_def scheme_prefix_def)
  next
    case base64_signature
    with none[of standard_hex] m rm show ?thesis
      by (simp add: service_loop pattern_of_simps sig_group_def scheme_prefix_def
            tried_before_def service_order_def)
  next
    case web3_signature
    with none[of standard_hex] none[of base64_signature] m rm show ?thesis
      by (simp add: service_loop pattern_of_simps sig_group_def scheme_prefix_def
            tried_before_def service_order_def)
  next
    case ethereum_signature
    with none[of standard_hex] none[of base64_signature] none[of web3_signature] m rm
    show ?thesis
      by (simp add: service_loop pattern_of_simps sig_group_def scheme_prefix_def
            tried_before_def service_order_def)
  next
    case did_signature
    with none[of standard_hex] none[of base64_signature] none[of web3_signature]
      none[of ethereum_signature] m rm
    show ?thesis
      by (simp add: service_loop pattern_of_simps sig_group_def scheme_prefix_def
            tried_before_def service_order_def)
  qed
qed

lemma no_tag_sms:
  assumes "\<forall>k i. \<not> occurs_at k msg i"
  shows "try_patterns signaturePatterns msg = (None, msg, None)"
  using absent_scheme[of standard_hex msg] absent_scheme[of base64_signature msg]
    absent_scheme[of web3_signature msg] absent_scheme[of did_signature msg]
    absent_scheme[of ethereum_signature msg] assms
  by (simp add: signaturePatterns_def pattern_of_simps)

lemma no_tag_service:
  assumes "\<forall>k i. \<not> occurs_at k msg i"
  shows "service_try_patterns service_signaturePatterns msg = ([], msg, [])"
  using absent_scheme[of standard_hex msg] absent_scheme[of base64_signature msg]
    absent_scheme[of web3_signature msg] absent_scheme[of did_signature msg]
    absent_scheme[of ethereum_signature msg] assms
  by (simp add: service_loop pattern_of_simps)

lemma recognized_label:
  assumes "recognized k tag payload"
  shows "\<exists>lit rest. tag = lit @ rest \<and> same_ci lit (label_of k) \<and> 64 < length tag"
  using assms
  by (cases k) (auto simp: recognized_def bracket_tag_def did_tag_def label_of_def
      dest: same_ci_length)

lemma same_ci_nth:
  "same_ci s t \<Longrightarrow> n < length t \<Longrightarrow> canonicalize (s ! n) = canonicalize (t ! n)"
  unfolding same_ci_def by (metis length_map nth_map)

lemma occurs_at_char:
  assumes "occurs_at k msg i" "n < length (label_of k)"
  shows "canonicalize (msg ! (i + n)) = canonicalize (label_of k ! n)"
proof -
  from assms(1) obtain tag payload where i: "i \<le> length msg" and r: "recognized k tag payload"
    and s: "startsWith (drop i msg) tag" unfolding occurs_at_def by blast
  from recognized_label[OF r] obtain lit rest where t: "tag = lit @ rest"
    and ci: "same_ci lit (label_of k)" by blast
  have len: "length lit = length (label_of k)" using ci by (rule same_ci_length)
  have d: "drop i msg = lit @ rest @ drop (length tag) (drop i msg)"
    using startsWith_split[OF s] t by simp
  have "i + n < length msg"
  proof -
    have "length (drop i msg) \<ge> length lit" using d by (metis length_append le_add1)
    then show ?thesis using assms(2) len by simp
  qed
  then have "msg ! (i + n) = drop i msg ! n" by simp
  also have "\<dots> = lit ! n" using d assms(2) len by (simp add: nth_append)
  finally show ?thesis using same_ci_nth[OF ci assms(2)] by simp
qed

lemma canonicalize_lbracket [simp]: "canonicalize c = canonicalize CHR ''['' \<longleftrightarrow> c = CHR ''[''"
  by (rule canonicalize_eq_other) (simp add: code_def)

lemma occurs_at_bracket:
  assumes "occurs_at k msg i"
  shows "i < length msg \<and> msg ! i = CHR ''[''"
proof -
  from assms obtain tag payload where i: "i \<le> length msg" and r: "recognized k tag payload"
    and s: "startsWith (drop i msg) tag" unfolding occurs_at_def by blast
  have "drop i msg \<noteq> []" using startsWith_split[OF s] recognized_nonempty[OF r] by auto
  then have l: "i < length msg" by simp
  have "canonicalize (msg ! (i + 0)) = canonicalize (label_of k ! 0)"
    by (rule occurs_at_char[OF assms]) (cases k; simp add: label_of_def)
  then have "msg ! i = CHR ''[''" by (cases k) (simp_all add: label_of_def)
  with l show ?thesis by simp
qed

lemma occurs_at_long:
  assumes "occurs_at k msg i"
  shows "64 < length msg"
proof -
  from assms obtain tag payload where i: "i \<le> length msg" and r: "recognized k tag payload"
    and s: "startsWith (drop i msg) tag" unfolding occurs_at_def by blast
  from recognized_label[OF r] have "64 < length tag" by blast
  moreover have "length tag \<le> length (drop i msg)"
    using startsWith_split[OF s] by (metis length_append le_add1)
  ultimately show ?thesis by simp
qed

lemma one_bracket:
  assumes "CHR ''['' \<notin> set pre" "CHR ''['' \<notin> set rest"
    and "i < length (pre @ CHR ''['' # rest)" "(pre @ CHR ''['' # rest) ! i = CHR ''[''"
  shows "i = length pre"
proof (rule ccontr)
  assume ne: "i \<noteq> length pre"
  show False
  proof (cases "i < length pre")
    case True
    then have "(pre @ CHR ''['' # rest) ! i = pre ! i" by (simp add: nth_append)
    with assms(4) True assms(1) show False using nth_mem by metis
  next
    case False
    with ne have gt: "length pre < i" by simp
    define j where "j = i - length pre - 1"
    have i: "i = length pre + 1 + j" using gt by (simp add: j_def)
    have "(pre @ CHR ''['' # rest) ! i = rest ! j"
      unfolding i by (simp add: nth_append)
    moreover have "j < length rest" using assms(3) i by simp
    ultimately show False using assms(2,4) nth_mem by metis
  qed
qed

lemma two_brackets:
  assumes "CHR ''['' \<notin> set pre" "CHR ''['' \<notin> set mid" "CHR ''['' \<notin> set rest"
    and "i < length (pre @ CHR ''['' # mid @ CHR ''['' # rest)"
    and "(pre @ CHR ''['' # mid @ CHR ''['' # rest) ! i = CHR ''[''"
  shows "i = length pre \<or> i = length pre + 1 + length mid"
proof (cases "i \<le> length pre")
  case True
  show ?thesis
  proof (cases "i = length pre")
    case True then show ?thesis by simp
  next
    case False
    with True have lt: "i < length pre" by simp
    then have "(pre @ CHR ''['' # mid @ CHR ''['' # rest) ! i = pre ! i" by (simp add: nth_append)
    with assms(5) lt assms(1) show ?thesis using nth_mem by metis
  qed
next
  case False
  define j where "j = i - length pre - 1"
  have i: "i = length pre + 1 + j" using False by (simp add: j_def)
  have "(pre @ CHR ''['' # mid @ CHR ''['' # rest) ! i = (mid @ CHR ''['' # rest) ! j"
    unfolding i by (simp add: nth_append)
  moreover have "j < length (mid @ CHR ''['' # rest)" using assms(4) i by simp
  ultimately have "j = length mid" using one_bracket[OF assms(2,3)] assms(5) by metis
  with i show ?thesis by simp
qed

lemma class_matches_in_range:
  "list_ex (\<lambda>(lo, hi). code lo \<le> code a \<and> code a \<le> code hi) rs \<Longrightarrow> class_matches rs a"
  by (auto simp: list_ex_iff intro: class_matches_range)

lemma hex_ab: "class_matches HEX CHR ''a''" "class_matches HEX CHR ''b''"
  by (rule class_matches_in_range; simp add: HEX_def code_def)+

lemma bracket_tagI:
  assumes "same_ci lit label" "list_all ok payload" "lo \<le> length payload"
    and "case hi of None \<Rightarrow> True | Some h \<Rightarrow> length payload \<le> h"
  shows "bracket_tag label ok lo hi (lit @ payload @ '']'') payload"
  unfolding bracket_tag_def using assms by blast

lemma recognized_hex_tag: "recognized standard_hex hex_tag sig64"
proof -
  have "bracket_tag ''[SIG:'' (class_matches HEX) 64 None (''[SIG:'' @ sig64 @ '']'') sig64"
    by (rule bracket_tagI) (simp_all add: same_ci_def sig64_def list_all_iff hex_ab)
  then show ?thesis by (simp add: recognized_def hex_tag_def)
qed

lemma recognized_eth_tag: "recognized ethereum_signature eth_tag sig130"
proof -
  have "bracket_tag ''[ETH:0x'' (class_matches HEX) 130 (Some 130) (''[ETH:0x'' @ sig130 @ '']'') sig130"
    by (rule bracket_tagI) (simp_all add: same_ci_def sig130_def list_all_iff hex_ab)
  then show ?thesis by (simp add: recognized_def eth_tag_def)
qed

lemma did_sample: "did_tag did_sample_tag ''did:web:acme'' sig64"
  unfolding did_tag_def
  apply (rule exI[of _ "''[DID:''"], rule exI[of _ "''did:''"], rule exI[of _ "''#SIG:''"])
  apply (rule exI[of _ "''web''"], rule exI[of _ "''acme''"])
  apply (simp add: did_sample_tag_def same_ci_def sig64_def list_all_iff hex_ab)
  apply (intro conjI class_matches_in_range; simp add: DID_METHOD_def DID_ID_def code_def)
  done

lemma recognized_did_tag: "recognized did_signature did_sample_tag sig64"
  unfolding recognized_def using did_sample by auto

lemma label_length: "5 \<le> length (label_of k)"
  by (cases k) (simp_all add: label_of_def)

lemma kind_SIG:
  assumes "occurs_at k msg i" "msg ! (i + 1) = CHR ''S''" "msg ! (i + 4) = CHR '':''"
  shows "k = standard_hex"
proof -
  have a: "canonicalize (msg ! (i + 1)) = canonicalize (label_of k ! 1)"
    and b: "canonicalize (msg ! (i + 4)) = canonicalize (label_of k ! 4)"
    using occurs_at_char[OF assms(1), of 1] occurs_at_char[OF assms(1), of 4]
      label_length[of k] by simp_all
  show ?thesis
    using a b unfolding assms(2,3)
    by (cases k) (simp_all add: label_of_def canonicalize_def code_def char_of_is)
qed

lemma kind_ETH:
  assumes "occurs_at k msg i" "msg ! (i + 1) = CHR ''E''"
  shows "k = ethereum_signature"
proof -
  have a: "canonicalize (msg ! (i + 1)) = canonicalize (label_of k ! 1)"
    using occurs_at_char[OF assms(1), of 1] label_length[of k] by simp
  show ?thesis
    using a unfolding assms(2)
    by (cases k) (simp_all add: label_of_def canonicalize_def code_def char_of_is)
qed

lemma kind_DID:
  assumes "occurs_at k msg i" "msg ! (i + 1) = CHR ''D''"
  shows "k = did_signature"
proof -
  have a: "canonicalize (msg ! (i + 1)) = canonicalize (label_of k ! 1)"
    using occurs_at_char[OF assms(1), of 1] label_length[of k] by simp
  show ?thesis
    using a unfolding assms(2)
    by (cases k) (simp_all add: label_of_def canonicalize_def code_def char_of_is)
qed

lemma hello_only:
  assumes "occurs_at k hello_message i"
  shows "k = standard_hex \<and> i = length ''Hello ''"
proof -
  have m: "hello_message = ''Hello '' @ CHR ''['' # (''SIG:'' @ sig64 @ ''] world'')"
    by (simp add: hello_message_def hex_tag_def)
  from occurs_at_bracket[OF assms]
  have b: "i < length (''Hello '' @ CHR ''['' # (''SIG:'' @ sig64 @ ''] world''))"
    "(''Hello '' @ CHR ''['' # (''SIG:'' @ sig64 @ ''] world'')) ! i = CHR ''[''"
    unfolding m by simp_all
  have "i = length ''Hello ''"
    by (rule one_bracket[OF _ _ b]) (simp_all add: sig64_def)
  then have i: "i = 6" by simp
  have "hello_message ! (i + 1) = CHR ''S''" "hello_message ! (i + 4) = CHR '':''"
    unfolding i m by (simp_all add: nth_append)
  from kind_SIG[OF assms this] i show ?thesis by simp
qed

lemma pay_only:
  assumes "occurs_at k pay_message i"
  shows "k = standard_hex \<and> i = length ''Pay now ''"
proof -
  have m: "pay_message = ''Pay now '' @ CHR ''['' # (''SIG:'' @ sig64 @ '']'')"
    by (simp add: pay_message_def hex_tag_def)
  from occurs_at_bracket[OF assms]
  have b: "i < length (''Pay now '' @ CHR ''['' # (''SIG:'' @ sig64 @ '']''))"
    "(''Pay now '' @ CHR ''['' # (''SIG:'' @ sig64 @ '']'')) ! i = CHR ''[''"
    unfolding m by simp_all
  have "i = length ''Pay now ''"
    by (rule one_bracket[OF _ _ b]) (simp_all add: sig64_def)
  then have i: "i = 8" by simp
  have "pay_message ! (i + 1) = CHR ''S''" "pay_message ! (i + 4) = CHR '':''"
    unfolding i m by (simp_all add: nth_append)
  from kind_SIG[OF assms this] i show ?thesis by simp
qed

lemma two_only:
  assumes "occurs_at k two_tag_message i"
  shows "(k = ethereum_signature \<and> i = 0) \<or>
         (k = did_signature \<and> i = length (eth_tag @ '' ''))"
proof -
  let ?mid = "''ETH:0x'' @ sig130 @ ''] ''"
  let ?rest = "''DID:did:web:acme#SIG:'' @ sig64 @ '']''"
  have m: "two_tag_message = [] @ CHR ''['' # ?mid @ CHR ''['' # ?rest"
    by (simp add: two_tag_message_def eth_tag_def did_sample_tag_def)
  from occurs_at_bracket[OF assms]
  have b: "i < length ([] @ CHR ''['' # ?mid @ CHR ''['' # ?rest)"
    "([] @ CHR ''['' # ?mid @ CHR ''['' # ?rest) ! i = CHR ''[''"
    unfolding m by simp_all
  have "i = length ([] :: string) \<or> i = length ([] :: string) + 1 + length ?mid"
    by (rule two_brackets[OF _ _ _ b]) (simp_all add: sig64_def sig130_def)
  then have i: "i = 0 \<or> i = 139" by (simp add: sig130_def)
  then show ?thesis
  proof
    assume i0: "i = 0"
    have "two_tag_message ! (i + 1) = CHR ''E''" unfolding i0 m by simp
    from kind_ETH[OF assms this] i0 show ?thesis by simp
  next
    assume i1: "i = 139"
    have "two_tag_message ! (i + 1) = CHR ''D''"
      unfolding i1 m by (simp add: nth_append sig130_def nth_Cons')
    from kind_DID[OF assms this] i1 show ?thesis by (simp add: eth_tag_def sig130_def)
  qed
qed

lemma short_none: "\<not> occurs_at k short_tag_message i"
  using occurs_at_long[of k short_tag_message i] by (auto simp: short_tag_message_def)

section \<open>The signature extractor\<close>

text \<open>
  Claim C6. A message in which no tag of any of the five schemes occurs (a bracket tag
  whose payload is shorter than the minimum of its scheme is no tag) comes back with its
  content unchanged and without a signature: \<^verbatim>\<open>null\<close> from \<^verbatim>\<open>SMSService\<close>, and the
  empty string, the initial value of the string field that callers test with
  \<^verbatim>\<open>!parsed.signature\<close>, from the service's own parser.
\<close>

theorem no_tag_no_signature:
  assumes "\<forall>k i. \<not> occurs_at k msg i"
  shows "parseSMSMessage msg sndr now =
           \<lparr>originalMessage = msg, extractedContent = msg, signature = None, sender = sndr,
            timestamp = now, phoneNumber = sndr, signatureBlock = None\<rparr> \<and>
         service_parseSMSMessage msg =
           \<lparr>pm_content = msg, pm_signature = [], pm_senderAddress = [],
            pm_originalMessage = msg\<rparr>"
  by (simp add: parseSMSMessage_def service_parseSMSMessage_def no_tag_sms[OF assms]
        no_tag_service[OF assms])

text \<open>Claim C6 on a message whose tag has a payload of four characters.\<close>

theorem no_tag_no_signature_witness:
  "(\<forall>k i. \<not> occurs_at k short_tag_message i) \<and>
   parseSMSMessage short_tag_message None 0 =
           \<lparr>originalMessage = short_tag_message, extractedContent = short_tag_message,
            signature = None, sender = None,
            timestamp = 0, phoneNumber = None, signatureBlock = None\<rparr> \<and>
   service_parseSMSMessage short_tag_message =
           \<lparr>pm_content = short_tag_message, pm_signature = [], pm_senderAddress = [],
            pm_originalMessage = short_tag_message\<rparr>"
proof -
  have h: "\<forall>k i. \<not> occurs_at k short_tag_message i" using short_none by blast
  from no_tag_no_signature[OF h, of None 0] h show ?thesis by blast
qed

lemma only_tag_first:
  assumes only: "\<forall>k' i. occurs_at k' msg i \<longrightarrow> k' = k \<and> i = n"
  shows "\<forall>j < n. \<not> occurs_at k msg j"
    and "\<forall>k' \<in> set (tried_before ord k). \<forall>i. \<not> occurs_at k' msg i"
proof -
  show "\<forall>j < n. \<not> occurs_at k msg j" using only by auto
  show "\<forall>k' \<in> set (tried_before ord k). \<forall>i. \<not> occurs_at k' msg i"
  proof (intro ballI allI)
    fix k' i assume "k' \<in> set (tried_before ord k)"
    then have "k' \<noteq> k" unfolding tried_before_def by (auto dest: set_takeWhileD)
    with only show "\<not> occurs_at k' msg i" by blast
  qed
qed

text \<open>
  Claim C5, as amended. When exactly one tag occurs in a message, both parsers return the
  payload of the tag with the prefix of its scheme (\<open>0x\<close> for WEB3SIG and ETH, none
  otherwise; for DID the signature half), and as content the text without the tag,
  trimmed of white space at both ends; \<^verbatim>\<open>SMSService\<close> also records the tag as the
  signature block.
\<close>

theorem single_tag_extraction:
  assumes "recognized k tag payload"
    and "\<forall>k' i. occurs_at k' (pre @ tag @ post) i \<longrightarrow> k' = k \<and> i = length pre"
  shows "parseSMSMessage (pre @ tag @ post) sndr now =
           \<lparr>originalMessage = pre @ tag @ post, extractedContent = trim (pre @ post),
            signature = Some (scheme_prefix k @ payload), sender = sndr,
            timestamp = now, phoneNumber = sndr, signatureBlock = Some tag\<rparr> \<and>
         pm_signature (service_parseSMSMessage (pre @ tag @ post)) = scheme_prefix k @ payload \<and>
         pm_content (service_parseSMSMessage (pre @ tag @ post)) = trim (pre @ post)"
proof -
  note f = only_tag_first[OF assms(2)]
  from service_priority[OF assms(1) f(1) f(2)[of service_order]]
  obtain hint where "service_try_patterns service_signaturePatterns (pre @ tag @ post) =
           (scheme_prefix k @ payload, trim (pre @ post), hint)" by blast
  then show ?thesis
    by (simp add: parseSMSMessage_def service_parseSMSMessage_def
          sms_priority[OF assms(1) f(1) f(2)[of sms_order]])
qed

lemma hello_split: "hello_message = ''Hello '' @ hex_tag @ '' world''"
  by (simp add: hello_message_def)

text \<open>The amended claim C5 on \<open>Hello [SIG:a...a] world\<close>, whose only tag is the one
  at offset 6.\<close>

theorem single_tag_extraction_witness:
  "recognized standard_hex hex_tag sig64 \<and>
   parseSMSMessage (''Hello '' @ hex_tag @ '' world'') None 0 =
           \<lparr>originalMessage = ''Hello '' @ hex_tag @ '' world'',
            extractedContent = trim (''Hello '' @ '' world''),
            signature = Some (scheme_prefix standard_hex @ sig64), sender = None,
            timestamp = 0, phoneNumber = None, signatureBlock = Some hex_tag\<rparr> \<and>
   pm_signature (service_parseSMSMessage (''Hello '' @ hex_tag @ '' world''))
     = scheme_prefix standard_hex @ sig64 \<and>
   pm_content (service_parseSMSMessage (''Hello '' @ hex_tag @ '' world''))
     = trim (''Hello '' @ '' world'')"
proof -
  have h: "\<forall>k' i. occurs_at k' (''Hello '' @ hex_tag @ '' world'') i \<longrightarrow>
      k' = standard_hex \<and> i = length ''Hello ''"
    using hello_only unfolding hello_split by blast
  from single_tag_extraction[OF recognized_hex_tag h, of None 0] recognized_hex_tag
  show ?thesis by blast
qed

lemma trim_hello: "trim ''Hello  world'' = ''Hello  world''"
  by (simp add: trim_def is_space_def code_def)

lemma collapse_hello: "collapse_whitespace ''Hello  world'' = ''Hello world''"
  by (simp add: collapse_whitespace_def trim_hello is_space_def code_def)

text \<open>
  Claim C5 as stated fails inside the text: removing the tag from
  \<open>Hello [SIG:a...a] world\<close> leaves two spaces between the words, and they stay,
  whereas collapsing white space would leave one.
\<close>

theorem interior_whitespace_counterexample:
  "extractedContent (parseSMSMessage hello_message None 0) = ''Hello  world'' \<and>
   collapse_whitespace (''Hello '' @ '' world'') = ''Hello world'' \<and>
   extractedContent (parseSMSMessage hello_message None 0)
     \<noteq> collapse_whitespace (''Hello '' @ '' world'')"
proof -
  have "\<forall>j < length ''Hello ''. \<not> occurs_at standard_hex (''Hello '' @ hex_tag @ '' world'') j"
    using hello_only unfolding hello_split by fastforce
  from sms_priority[OF recognized_hex_tag this]
  have "try_patterns signaturePatterns hello_message =
          (Some (scheme_prefix standard_hex @ sig64), trim (''Hello '' @ '' world''), Some hex_tag)"
    unfolding hello_split by (simp add: tried_before_def sms_order_eq)
  then show ?thesis
    by (simp add: parseSMSMessage_def trim_hello collapse_hello)
qed

text \<open>
  Claim C2 at a message that holds a valid ETH tag and a valid DID tag:
  \<^verbatim>\<open>SMSService\<close>, which tries DID before ETH, returns the signature of the DID tag;
  the parser of \<^verbatim>\<open>SupabaseVerificationService\<close>, whose array lists ETH before DID,
  returns the signature of the ETH tag and no sender hint.
\<close>

theorem did_and_eth_tags:
  "signature (parseSMSMessage two_tag_message None 0) = Some sig64 \<and>
   pm_signature (service_parseSMSMessage two_tag_message) = ''0x'' @ sig130 \<and>
   pm_senderAddress (service_parseSMSMessage two_tag_message) = []"
proof -
  have m1: "two_tag_message = (eth_tag @ '' '') @ did_sample_tag @ []"
    and m2: "two_tag_message = [] @ eth_tag @ ('' '' @ did_sample_tag)"
    by (simp_all add: two_tag_message_def)
  have l1: "\<forall>j < length (eth_tag @ '' ''). \<not> occurs_at did_signature ((eth_tag @ '' '') @ did_sample_tag @ []) j"
    unfolding m1[symmetric] using two_only by fastforce
  have p1: "\<forall>k' \<in> set (tried_before sms_order did_signature). \<forall>i.
              \<not> occurs_at k' ((eth_tag @ '' '') @ did_sample_tag @ []) i"
    unfolding m1[symmetric] using two_only by (fastforce simp: tried_before_def sms_order_eq)
  have a: "try_patterns signaturePatterns two_tag_message =
          (Some (scheme_prefix did_signature @ sig64), trim ((eth_tag @ '' '') @ []), Some did_sample_tag)"
    using sms_priority[OF recognized_did_tag l1 p1] unfolding m1[symmetric] .
  have l2: "\<forall>j < length ([] :: string). \<not> occurs_at ethereum_signature ([] @ eth_tag @ ('' '' @ did_sample_tag)) j"
    by simp
  have p2: "\<forall>k' \<in> set (tried_before service_order ethereum_signature). \<forall>i.
              \<not> occurs_at k' ([] @ eth_tag @ ('' '' @ did_sample_tag)) i"
    unfolding m2[symmetric] using two_only by (fastforce simp: tried_before_def service_order_def)
  from service_priority[OF recognized_eth_tag l2 p2]
  have b: "service_try_patterns service_signaturePatterns two_tag_message =
           (scheme_prefix ethereum_signature @ sig130, trim ([] @ ('' '' @ did_sample_tag)), [])"
    unfolding m2[symmetric] by auto
  show ?thesis
    using a b by (simp add: parseSMSMessage_def service_parseSMSMessage_def scheme_prefix_def)
qed

section \<open>The sender resolver\<close>

lemma resolve_unresolvable:
  assumes "unresolvable e w hint phone"
  shows "resolveSenderAddress e w hint phone = Inr (Some fallback_address)"
  using assms
  by (auto simp: unresolvable_def resolveSenderAddress_def directory_miss_def
      split: option.splits)

text \<open>
  Claim C1, as amended. For an unresolvable sender (empty hint, and no phone number or a
  directory lookup that misses) \<^verbatim>\<open>resolveSenderAddress\<close> returns the fixed fallback
  address; a verification with that address and no configured backend reports
  \<open>isValid\<close> exactly when the normalized signature has at least 64 characters and the
  trimmed content is not empty, whoever the sender is, so it can report \<open>isValid = true\<close>.
\<close>

theorem unresolved_sender_fallback:
  assumes "unresolvable e w hint phone"
  shows "resolveSenderAddress e w hint phone = Inr (Some fallback_address) \<and>
         (unconfigured e \<longrightarrow>
            (isValid (fst (verifyMessageSignature e w' content sg fallback_address via)) \<longleftrightarrow>
               64 \<le> length (toLowerCase (strip_0x sg)) \<and> 0 < length (trim content)))"
  using resolve_unresolvable[OF assms]
  by (simp add: verifyMessageSignature_mock)

lemma unresolvable_sample: "unresolvable mock_env quiet_world [] None"
  by (simp add: unresolvable_def)

text \<open>The amended claim C1 for a message without hint and phone number: the fallback
  address is returned, and the verification with it succeeds.\<close>

theorem unresolved_sender_fallback_witness:
  "unresolvable mock_env quiet_world [] None \<and> unconfigured mock_env \<and>
   resolveSenderAddress mock_env quiet_world [] None = Inr (Some fallback_address) \<and>
   isValid (fst (verifyMessageSignature mock_env quiet_world ''hello'' sig64 fallback_address ''sms''))"
proof -
  have "64 \<le> length (toLowerCase (strip_0x sig64)) \<and> 0 < length (trim ''hello'')"
    by (simp add: sig64_def strip_0x_replicate_a trim_def is_space_def code_def)
  with unresolved_sender_fallback[OF unresolvable_sample, of quiet_world "''hello''" sig64 "''sms''"]
    unresolvable_sample unconfigured_mock_env
  show ?thesis by blast
qed

lemma pay_parse:
  "service_parseSMSMessage pay_message =
     \<lparr>pm_content = ''Pay now'', pm_signature = sig64, pm_senderAddress = [],
      pm_originalMessage = pay_message\<rparr>"
proof -
  have m: "pay_message = ''Pay now '' @ hex_tag @ []" by (simp add: pay_message_def)
  have l: "\<forall>j < length ''Pay now ''. \<not> occurs_at standard_hex (''Pay now '' @ hex_tag @ []) j"
    unfolding m[symmetric] using pay_only by fastforce
  have p: "\<forall>k' \<in> set (tried_before service_order standard_hex). \<forall>i.
             \<not> occurs_at k' (''Pay now '' @ hex_tag @ []) i"
    by (simp add: tried_before_def service_order_def)
  from service_priority[OF recognized_hex_tag l p]
  have "service_try_patterns service_signaturePatterns pay_message =
           (scheme_prefix standard_hex @ sig64, trim (''Pay now '' @ []), [])"
    unfolding m[symmetric] by auto
  moreover have "trim ''Pay now '' = ''Pay now''" by (simp add: trim_def is_space_def code_def)
  ultimately show ?thesis
    by (simp add: service_parseSMSMessage_def scheme_prefix_def)
qed

lemma sig64_nonempty: "sig64 \<noteq> []"
  by (simp add: sig64_def)

lemma strip_sig64: "strip_0x sig64 = sig64"
  by (simp add: sig64_def strip_0x_replicate_a)

text \<open>
  Claim C1 as stated fails: an SMS with a signature tag, no DID and no phone number gets
  the fallback address, and its verification without a configured backend reports
  \<open>isValid = true\<close>.
\<close>

theorem fallback_verifies_counterexample:
  "resolveSenderAddress mock_env quiet_world [] None = Inr (Some fallback_address) \<and>
   isValid (fst (verifySMSMessage mock_env quiet_world pay_message None))"
proof -
  have r: "resolveSenderAddress mock_env quiet_world [] None = Inr (Some fallback_address)"
    by (simp add: resolveSenderAddress_def)
  have f: "fallback_address \<noteq> []" by (simp add: fallback_address_def)
  have t: "trim ''Pay now'' = ''Pay now''" by (simp add: trim_def is_space_def code_def)
  have "verifySMSMessage mock_env quiet_world pay_message None =
          verifyMessageSignature mock_env quiet_world ''Pay now'' sig64 fallback_address ''sms''"
    using r f by (simp add: verifySMSMessage_def pay_parse sig64_nonempty Let_def)
  then show ?thesis
    using r by (simp add: verifyMessageSignature_mock[OF unconfigured_mock_env] strip_sig64 t)
       (simp add: sig64_def)
qed








section \<open>The result persister\<close>

lemma lower_a: "lower_char CHR ''a'' = CHR ''a''"
  by (simp add: lower_char_def code_def)

lemma clean_sig128: "toLowerCase (strip_0x sig128) = sig128"
  by (simp add: sig128_def strip_0x_def startsWith_def toLowerCase_def lower_a)

lemma clean_fallback: "toLowerCase fallback_address = fallback_address"
  by (simp add: fallback_address_def toLowerCase_def lower_char_def code_def)

lemma clean_content: "trim test_content = test_content"
  by (simp add: test_content_def trim_def is_space_def code_def)

lemma hex_sig128: "list_all (class_matches HEX) sig128 \<and> 128 \<le> length sig128"
  by (simp add: sig128_def list_all_iff hex_ab)

lemma acme_verify:
  assumes "organizations (db w) = organizations (db acme_world)"
  shows "verify_message_signature e (db w) test_content sig128 fallback_address = acme_row e"
  using assms hex_sig128
  by (simp add: verify_message_signature_def get_organization_by_wallet_def acme_world_def
        empty_database_def acme_row_def Let_def sig128_def)

lemma verify_message_signature_faults:
  "verify_message_signature
     (e\<lparr>insert_message_fault := f1, get_user_fault := f2, insert_attempt_fault := f3\<rparr>) d c s a
   = verify_message_signature e d c s a"
  by (simp add: verify_message_signature_def Let_def split: list.splits)

lemma verifyMessage_faults:
  "verifyMessage (e\<lparr>insert_message_fault := f1, get_user_fault := f2, insert_attempt_fault := f3\<rparr>)
      w c s a = verifyMessage e w c s a"
  by (cases "rpc_fault e")
     (simp_all add: verifyMessage_def unconfigured_def verify_message_signature_faults)

lemma verifyMessage_valid_world:
  assumes "verifyMessage e w c s a = (r, w1)" "reply_error r = None"
  shows "w1 = w"
  using assms
  by (auto simp: verifyMessage_def handleSupabaseError_def split: if_splits fault.splits)

lemma verify_result_faults:
  "fst (verifyMessageSignature
          (e\<lparr>insert_message_fault := f1, get_user_fault := f2, insert_attempt_fault := f3\<rparr>)
          w c s a via) = fst (verifyMessageSignature e w c s a via)"
  by (simp add: verifyMessageSignature_def verifyMessage_faults Let_def
      split: prod.splits option.splits)

text \<open>What \<^verbatim>\<open>saveVerificationResult\<close> can do to the world.\<close>

lemma save_effects:
  fixes e w p
  defines "w' \<equiv> saveVerificationResult e w p"
  shows "(message_verification_attempts (db w') = message_verification_attempts (db w) \<or>
           (\<exists>u m a. auth_user (db w) = Some u \<and>
              verified_messages (db w') = verified_messages (db w) @ [m] \<and>
              message_verification_attempts (db w') =
                message_verification_attempts (db w) @ [a] \<and>
              message_id a = vm_id m \<and> attempted_by a = u))"
    and "\<not> unconfigured e \<Longrightarrow> verified_messages (db w') = verified_messages (db w) \<Longrightarrow>
           db w' = db w \<and>
           (console w' = console w @ [''Error saving verified message:''] \<or>
            console w' = console w @ [''Error saving verification result:''])"
    and "\<not> unconfigured e \<Longrightarrow> verified_messages (db w') \<noteq> verified_messages (db w) \<Longrightarrow>
           get_user_fault e = Served \<Longrightarrow> insert_attempt_fault e = Rejects x \<Longrightarrow>
           message_verification_attempts (db w') = message_verification_attempts (db w) \<and>
           console w' = console w @ [''Error saving verification result:'']"
    and "unconfigured e \<Longrightarrow> db w' = db w"
  unfolding w'_def
  by (auto simp: saveVerificationResult_def saveVerifiedMessage_def recordVerificationAttempt_def
        getUser_def insert_verified_message_def insert_attempt_def console_error_def Let_def
      split: if_splits fault.splits option.splits sum.splits prod.splits)

lemma verify_unfold:
  "verifyMessageSignature e w c s a via =
     (case verifyMessage e w (trim c) (toLowerCase (strip_0x s)) (toLowerCase a) of
        (r, w1) \<Rightarrow>
          (case reply_error r of
             Some err \<Rightarrow> (failure ''Verification service error'',
                           console_error ''Supabase verification error:'' w1)
           | None \<Rightarrow>
               (case data r of
                  None \<Rightarrow> (failure ''No verification result returned'', w1)
                | Some v \<Rightarrow>
                    (\<lparr>isValid = is_valid v, success = Some True,
                      organizationId = row_organization_id v,
                      organizationName = row_organization_name v,
                      verificationDetails = Some (row_verification_details v),
                      message = Some (if is_valid v
                                      then ''Message verified from '' @
                                           interpolate (row_organization_name v)
                                      else ''Message verification failed''),
                      error = None\<rparr>,
                     if is_valid v then
                       saveVerificationResult e w
                         \<lparr>p_messageContent = trim c,
                          p_signature = toLowerCase (strip_0x s),
                          p_senderAddress = toLowerCase a,
                          p_organizationId = row_organization_id v,
                          p_verificationDetails = Some (row_verification_details v),
                          p_verificationMethod = via\<rparr>
                     else w))))"
proof -
  obtain r w1 where v: "verifyMessage e w (trim c) (toLowerCase (strip_0x s)) (toLowerCase a) = (r, w1)"
    by (cases "verifyMessage e w (trim c) (toLowerCase (strip_0x s)) (toLowerCase a)")
  show ?thesis
  proof (cases "reply_error r")
    case None
    with verifyMessage_valid_world[OF v] have "w1 = w" by simp
    with v None show ?thesis
      by (simp add: verifyMessageSignature_def Let_def split: option.splits)
  next
    case (Some err)
    with v show ?thesis by (simp add: verifyMessageSignature_def Let_def)
  qed
qed

lemma verifyMessage_db:
  "verifyMessage e w c s a = (r, w1) \<Longrightarrow> db w1 = db w"
  by (auto simp: verifyMessage_def handleSupabaseError_def console_error_def
      split: if_splits fault.splits)

lemma verify_world_cases:
  "(\<not> isValid (fst (verifyMessageSignature e w c s a via)) \<and>
      db (snd (verifyMessageSignature e w c s a via)) = db w) \<or>
   (isValid (fst (verifyMessageSignature e w c s a via)) \<and>
      (\<exists>p. snd (verifyMessageSignature e w c s a via) = saveVerificationResult e w p))"
  unfolding verify_unfold
  by (auto simp: failure_def console_error_def dest: verifyMessage_db
      split: prod.splits option.splits)

text \<open>
  What \<^verbatim>\<open>verifyMessageSignature\<close> does to the tables on every input: nothing is
  written for a check that is not valid; a VerificationAttempt row is written only for the
  signed-in user and together with the VerifiedMessage row whose id it carries; the
  result does not depend on what becomes of the writes; with a configured backend, a
  VerifiedMessage row that could not be written leaves the tables as they were and one
  line on the console, and an exception from the write of the VerificationAttempt row
  leaves the attempts as they were and one line on the console.
\<close>

lemma persistence_effects:
  "(let res = fst (verifyMessageSignature e w c s a via);
        w' = snd (verifyMessageSignature e w c s a via)
    in (isValid res \<or> db w' = db w) \<and>
       (message_verification_attempts (db w') = message_verification_attempts (db w) \<or>
          (\<exists>u m att. auth_user (db w) = Some u \<and>
              verified_messages (db w') = verified_messages (db w) @ [m] \<and>
              message_verification_attempts (db w') =
                message_verification_attempts (db w) @ [att] \<and>
              message_id att = vm_id m \<and> attempted_by att = u)) \<and>
       fst (verifyMessageSignature
              (e\<lparr>insert_message_fault := f1, get_user_fault := f2, insert_attempt_fault := f3\<rparr>)
              w c s a via) = res \<and>
       (isValid res \<and> \<not> unconfigured e \<and>
        verified_messages (db w') = verified_messages (db w) \<longrightarrow>
          db w' = db w \<and>
          (console w' = console w @ [''Error saving verified message:''] \<or>
           console w' = console w @ [''Error saving verification result:''])) \<and>
       (isValid res \<and> \<not> unconfigured e \<and>
        verified_messages (db w') \<noteq> verified_messages (db w) \<and>
        get_user_fault e = Served \<and> insert_attempt_fault e = Rejects x \<longrightarrow>
          message_verification_attempts (db w') = message_verification_attempts (db w) \<and>
          console w' = console w @ [''Error saving verification result:'']))"
proof -
  let ?res = "fst (verifyMessageSignature e w c s a via)"
  let ?w' = "snd (verifyMessageSignature e w c s a via)"
  from verify_world_cases[of e w c s a via]
  show ?thesis
  proof
    assume "\<not> isValid ?res \<and> db ?w' = db w"
    then show ?thesis by (simp add: Let_def verify_result_faults)
  next
    assume "isValid ?res \<and> (\<exists>p. ?w' = saveVerificationResult e w p)"
    then obtain p where v: "isValid ?res" and p: "?w' = saveVerificationResult e w p" by blast
    note s = save_effects[of e w p, folded p]
    show ?thesis
      unfolding Let_def using v s(1) s(2) s(3)[of x] by (simp add: verify_result_faults)
  qed
qed

lemma acme_verifyMessageSignature:
  assumes "\<not> unconfigured e" "rpc_fault e = Served"
    and "organizations (db w) = organizations (db acme_world)"
  shows "isValid (fst (verifyMessageSignature e w test_content sig128 fallback_address via))"
    and "snd (verifyMessageSignature e w test_content sig128 fallback_address via) =
           saveVerificationResult e w (acme_params e via)"
proof -
  have vm: "verifyMessage e w test_content sig128 fallback_address =
          (\<lparr>data = Some (acme_row e), reply_error = None\<rparr>, w)"
    using assms(1,2) by (simp add: verifyMessage_def acme_verify[OF assms(3)])
  show "isValid (fst (verifyMessageSignature e w test_content sig128 fallback_address via))"
    by (simp add: verify_unfold clean_sig128 clean_fallback clean_content vm acme_row_def)
  show "snd (verifyMessageSignature e w test_content sig128 fallback_address via) =
           saveVerificationResult e w (acme_params e via)"
    by (simp add: verify_unfold clean_sig128 clean_fallback clean_content vm acme_row_def
          acme_params_def)
qed

lemma live_configured:
  "\<not> unconfigured live_env" "\<not> unconfigured second_env"
  "\<not> unconfigured attempt_error_env" "\<not> unconfigured message_error_env"
  by (simp_all add: unconfigured_def live_env_def second_env_def attempt_error_env_def
        message_error_env_def)

lemma live_served:
  "rpc_fault live_env = Served" "rpc_fault second_env = Served"
  "rpc_fault attempt_error_env = Served" "rpc_fault message_error_env = Served"
  by (simp_all add: live_env_def second_env_def attempt_error_env_def
        message_error_env_def mock_env_def)

lemma never_violates: "message_hash m = None \<Longrightarrow> \<not> violates_unique rows m"
  by (induction rows) (auto simp: violates_unique_def)

lemma save_served:
  assumes "\<not> unconfigured e" "insert_message_fault e = Served" "get_user_fault e = Served"
    and "auth_user (db w) = Some u"
  shows "insert_attempt_fault e = Served \<Longrightarrow>
           saveVerificationResult e w p =
             w\<lparr>db := (db w)\<lparr>verified_messages := verified_messages (db w) @ [saved_row e p],
                           message_verification_attempts :=
                             message_verification_attempts (db w) @ [saved_attempt e p u]\<rparr>\<rparr>"
    and "insert_attempt_fault e = ErrorReply c m \<Longrightarrow>
           saveVerificationResult e w p =
             w\<lparr>db := (db w)\<lparr>verified_messages := verified_messages (db w) @ [saved_row e p]\<rparr>\<rparr>"
  using assms
  by (simp_all add: saveVerificationResult_def saveVerifiedMessage_def
        recordVerificationAttempt_def getUser_def insert_verified_message_def insert_attempt_def
        never_violates saved_row_def saved_attempt_def Let_def
        MessageData.extend_def VerifiedMessage.fields_def)

lemma save_message_error:
  assumes "\<not> unconfigured e" "insert_message_fault e = ErrorReply c m"
  shows "saveVerificationResult e w p = console_error ''Error saving verified message:'' w"
  using assms by (simp add: saveVerificationResult_def saveVerifiedMessage_def)

lemma acme_user: "auth_user (db acme_world) = Some ''user-1''"
  by (simp add: acme_world_def empty_database_def)

lemma live_faults:
  "insert_message_fault live_env = Served" "get_user_fault live_env = Served"
  "insert_attempt_fault live_env = Served"
  "insert_message_fault second_env = Served" "get_user_fault second_env = Served"
  "insert_attempt_fault second_env = Served"
  "insert_message_fault attempt_error_env = Served" "get_user_fault attempt_error_env = Served"
  "insert_attempt_fault attempt_error_env = ErrorReply ''08006'' ''connection failure''"
  "insert_message_fault message_error_env = ErrorReply ''08006'' ''connection failure''"
  by (simp_all add: live_env_def second_env_def attempt_error_env_def message_error_env_def
        mock_env_def)

lemma after_first_eq:
  "after_first =
     acme_world\<lparr>db := (db acme_world)
       \<lparr>verified_messages := [saved_row live_env (acme_params live_env ''manual'')],
        message_verification_attempts :=
          [saved_attempt live_env (acme_params live_env ''manual'') ''user-1'']\<rparr>\<rparr>"
  unfolding after_first_def
    acme_verifyMessageSignature(2)[OF live_configured(1) live_served(1) refl]
    save_served(1)[OF live_configured(1) live_faults(1,2) acme_user live_faults(3)]
  by (simp add: acme_world_def empty_database_def)

lemma after_second_eq:
  "after_second =
     acme_world\<lparr>db := (db acme_world)
       \<lparr>verified_messages := [saved_row live_env (acme_params live_env ''manual''),
                              saved_row second_env (acme_params second_env ''manual'')],
        message_verification_attempts :=
          [saved_attempt live_env (acme_params live_env ''manual'') ''user-1'',
           saved_attempt second_env (acme_params second_env ''manual'') ''user-1'']\<rparr>\<rparr>"
proof -
  have o: "organizations (db after_first) = organizations (db acme_world)"
    and u: "auth_user (db after_first) = Some ''user-1''"
    by (simp_all add: after_first_eq acme_user)
  show ?thesis
    unfolding after_second_def
      acme_verifyMessageSignature(2)[OF live_configured(2) live_served(2) o]
      save_served(1)[OF live_configured(2) live_faults(4,5) u live_faults(6)]
    by (simp add: after_first_eq)
qed

text \<open>
  Claim C4 at the same content, signature and sender verified twice, with a configured
  backend, a signed-in user and the sender's organization verified: the table
  \<^verbatim>\<open>verified_messages\<close> then holds two rows for the triple. Each insert is a plain
  insert of a row without \<^verbatim>\<open>message_hash\<close>, and the uniqueness constraint on
  (signature, message_hash) does not fire on rows whose hash is \<^verbatim>\<open>NULL\<close>.
\<close>

theorem repeated_verification_duplicates:
  "map message_content (verified_messages (db after_second)) = [test_content, test_content] \<and>
   map msg_signature (verified_messages (db after_second)) = [sig128, sig128] \<and>
   map sender_address (verified_messages (db after_second)) =
     [fallback_address, fallback_address] \<and>
   map message_hash (verified_messages (db after_second)) = [None, None]"
  by (simp add: after_second_eq saved_row_def acme_params_def)

text \<open>
  Claim C7 where the backend answers the insert of the VerificationAttempt row with an
  error, for a signed-in user and a valid check whose VerifiedMessage row was saved: no
  attempt is stored and nothing is logged, because \<^verbatim>\<open>saveVerificationResult\<close> does not
  look at the reply of \<^verbatim>\<open>recordVerificationAttempt\<close>. The same error in answer to the
  insert of the VerifiedMessage row is logged, with the line
  \<^verbatim>\<open>Error saving verified message:\<close>.
\<close>

theorem attempt_error_not_logged:
  "isValid (fst (verifyMessageSignature attempt_error_env acme_world test_content sig128
                   fallback_address ''manual'')) \<and>
   auth_user (db acme_world) = Some ''user-1'' \<and>
   verified_messages (db after_attempt_error) =
     [saved_row attempt_error_env (acme_params attempt_error_env ''manual'')] \<and>
   message_verification_attempts (db after_attempt_error) = [] \<and>
   console after_attempt_error = console acme_world \<and>
   isValid (fst (verifyMessageSignature message_error_env acme_world test_content sig128
                   fallback_address ''manual'')) \<and>
   db after_message_error = db acme_world \<and>
   console after_message_error = console acme_world @ [''Error saving verified message:'']"
proof -
  have eq: "after_attempt_error =
     acme_world\<lparr>db := (db acme_world)
       \<lparr>verified_messages :=
          [saved_row attempt_error_env (acme_params attempt_error_env ''manual'')]\<rparr>\<rparr>"
    unfolding after_attempt_error_def
      acme_verifyMessageSignature(2)[OF live_configured(3) live_served(3) refl]
      save_served(2)[OF live_configured(3) live_faults(7,8) acme_user live_faults(9)]
    by (simp add: acme_world_def empty_database_def)
  have v: "isValid (fst (verifyMessageSignature attempt_error_env acme_world test_content sig128
                   fallback_address ''manual''))"
    by (rule acme_verifyMessageSignature(1)[OF live_configured(3) live_served(3) refl])
  have a: "verified_messages (db after_attempt_error) =
             [saved_row attempt_error_env (acme_params attempt_error_env ''manual'')] \<and>
        message_verification_attempts (db after_attempt_error) = [] \<and>
        console after_attempt_error = console acme_world"
    unfolding eq by (simp add: acme_world_def empty_database_def)
  have v': "isValid (fst (verifyMessageSignature message_error_env acme_world test_content
                   sig128 fallback_address ''manual''))"
    by (rule acme_verifyMessageSignature(1)[OF live_configured(4) live_served(4) refl])
  have w: "after_message_error = console_error ''Error saving verified message:'' acme_world"
    unfolding after_message_error_def
      acme_verifyMessageSignature(2)[OF live_configured(4) live_served(4) refl]
    by (rule save_message_error[OF live_configured(4) live_faults(10)])
  have m: "db after_message_error = db acme_world \<and>
           console after_message_error = console acme_world @ [''Error saving verified message:'']"
    by (simp add: w console_error_def)
  from v acme_user a v' m show ?thesis by blast
qed

end
